theory Spec2Isabelle
  imports Main "HOL-Library.Sublist" "HOL-Library.Multiset"
begin

section \<open>Strings\<close>

text \<open>
  The script \<^verbatim>\<open>batch_video_copy.py\<close> compares lower-cased strings. Strings are
  \<^typ>\<open>string\<close> (lists of 8-bit characters); \<open>str_lower\<close> is Python's \<^verbatim>\<open>str.lower()\<close>
  on ASCII text: the letters A-Z go to a-z and every other character stays as it is.
  Python's \<^verbatim>\<open>a in b\<close> on strings is \<^const>\<open>sublist\<close>, \<^verbatim>\<open>s.endswith(e)\<close> is
  \<^const>\<open>suffix\<close> and \<^verbatim>\<open>s.startswith(e)\<close> is \<^const>\<open>prefix\<close>.
\<close>

definition lower_char :: "char \<Rightarrow> char" where
  "lower_char c =
     (case map_of (zip ''ABCDEFGHIJKLMNOPQRSTUVWXYZ'' ''abcdefghijklmnopqrstuvwxyz'') c of
        Some d \<Rightarrow> d
      | None \<Rightarrow> c)"

definition str_lower :: "string \<Rightarrow> string" where
  "str_lower s = map lower_char s"

section \<open>Path names (posixpath)\<close>

text \<open>
  \<^verbatim>\<open>os.path.join(a, b)\<close>: an absolute \<open>b\<close> replaces \<open>a\<close>; otherwise \<open>b\<close> is appended,
  with a separator unless \<open>a\<close> is empty or already ends with one.
\<close>

definition os_path_join :: "string \<Rightarrow> string \<Rightarrow> string" where
  "os_path_join a b =
     (if prefix ''/'' b then b
      else if a = [] \<or> suffix ''/'' a then a @ b
      else a @ ''/'' @ b)"

text \<open>\<^verbatim>\<open>s.rstrip('/')\<close> and the test \<^verbatim>\<open>head != sep*len(head)\<close>.\<close>

definition rstrip_sep :: "string \<Rightarrow> string" where
  "rstrip_sep s = rev (dropWhile (\<lambda>c. c = CHR ''/'') (rev s))"

definition all_sep :: "string \<Rightarrow> bool" where
  "all_sep s = (\<forall>c \<in> set s. c = CHR ''/'')"

text \<open>
  \<^verbatim>\<open>os.path.split(p)\<close>: the tail is what follows the last separator; the head is what
  precedes it, without its trailing separators unless it consists of separators only.
  \<^verbatim>\<open>os.path.basename(p)\<close> is the tail, and \<^verbatim>\<open>shutil._basename(p)\<close> is the basename
  of \<open>p\<close> without trailing separators.
\<close>

definition os_path_split :: "string \<Rightarrow> string \<times> string" where
  "os_path_split p =
     (let tail = rev (takeWhile (\<lambda>c. c \<noteq> CHR ''/'') (rev p));
          head = rev (dropWhile (\<lambda>c. c \<noteq> CHR ''/'') (rev p))
      in (if head \<noteq> [] \<and> \<not> all_sep head then rstrip_sep head else head, tail))"

definition os_path_basename :: "string \<Rightarrow> string" where
  "os_path_basename p = snd (os_path_split p)"

definition shutil_basename :: "string \<Rightarrow> string" where
  "shutil_basename p = os_path_basename (rstrip_sep p)"

text \<open>
  \<^verbatim>\<open>os.path.expanduser(path)\<close>. The first argument is the home directory as Python
  finds it (the variable \<^verbatim>\<open>HOME\<close>, else the password database), \<open>None\<close> when there
  is none: then, and for the form \<^verbatim>\<open>~user\<close> (homes of other users are not part of the
  model), the path is returned unchanged.
\<close>

definition os_path_expanduser :: "string option \<Rightarrow> string \<Rightarrow> string" where
  "os_path_expanduser home path =
     (if \<not> prefix ''~'' path then path
      else if takeWhile (\<lambda>c. c \<noteq> CHR ''/'') (tl path) \<noteq> [] then path
      else (case home of
              None \<Rightarrow> path
            | Some userhome \<Rightarrow>
                (let r = rstrip_sep userhome @ dropWhile (\<lambda>c. c \<noteq> CHR ''/'') (tl path)
                 in if r = [] then ''/'' else r)))"

section \<open>The file system\<close>

text \<open>
  A file system object is identified by its key, the list of names that leads to it from
  the root directory (the empty key). A file system holds the key of the working
  directory, the keys of its directories, its non-directory files with their contents
  (the order of the list is the order in which a directory lists its entries), and the
  directories that the process may not list. The root always exists. There are no
  symbolic links and a single process acts on the file system.

  The limits of the model: path names are POSIX path names and \<^verbatim>\<open>..\<close> is resolved on
  the path name; a process can be denied the listing of a directory and nothing else,
  and a file system never runs out of space, so that creating a directory and moving a
  file fail here for what the names are (a parent that is missing or not a directory, a
  name that is taken) and for nothing else.
\<close>

type_synonym key = "string list"

record filesystem =
  cwd :: key
  dir_keys :: "key list"
  file_data :: "(key \<times> string) list"
  unreadable :: "key list"

text \<open>
  A path name is resolved component by component: empty components and \<^verbatim>\<open>.\<close> stay
  where they are, \<^verbatim>\<open>..\<close> goes to the parent (the root is its own parent), any other
  name goes to that entry. A relative path starts at the working directory. The empty
  path names nothing.
\<close>

fun split_sep :: "string \<Rightarrow> string list" where
  "split_sep [] = [[]]"
| "split_sep (c # cs) =
     (if c = CHR ''/'' then [] # split_sep cs
      else (case split_sep cs of
              [] \<Rightarrow> [[c]]
            | x # xs \<Rightarrow> (c # x) # xs))"

definition walk_comp :: "key \<Rightarrow> string \<Rightarrow> key" where
  "walk_comp k c =
     (if c = [] \<or> c = ''.'' then k else if c = ''..'' then butlast k else k @ [c])"

definition resolve :: "filesystem \<Rightarrow> string \<Rightarrow> key option" where
  "resolve fs p =
     (if p = [] then None
      else Some (foldl walk_comp (if prefix ''/'' p then [] else cwd fs) (split_sep p)))"

definition isdir :: "key \<Rightarrow> filesystem \<Rightarrow> bool" where
  "isdir k fs = (k = [] \<or> k \<in> set (dir_keys fs))"

definition isfile :: "key \<Rightarrow> filesystem \<Rightarrow> bool" where
  "isfile k fs = (\<not> isdir k fs \<and> k \<in> fst ` set (file_data fs))"

definition os_path_isdir :: "string \<Rightarrow> filesystem \<Rightarrow> bool" where
  "os_path_isdir p fs = (case resolve fs p of None \<Rightarrow> False | Some k \<Rightarrow> isdir k fs)"

definition os_path_exists :: "string \<Rightarrow> filesystem \<Rightarrow> bool" where
  "os_path_exists p fs =
     (case resolve fs p of None \<Rightarrow> False | Some k \<Rightarrow> isdir k fs \<or> isfile k fs)"

datatype os_error =
    FileNotFoundError string
  | FileExistsError string
  | NotADirectoryError string
  | IsADirectoryError string
  | PermissionError string
  | ShutilError string
  | OSError string

text \<open>
  \<^verbatim>\<open>os.mkdir(name)\<close> creates one directory: the name must be free and its parent must
  be a directory.
\<close>

definition os_mkdir :: "string \<Rightarrow> filesystem \<Rightarrow> os_error + filesystem" where
  "os_mkdir name fs =
     (case resolve fs name of
        None \<Rightarrow> Inl (FileNotFoundError name)
      | Some k \<Rightarrow>
          if isdir k fs \<or> isfile k fs then Inl (FileExistsError name)
          else if isfile (butlast k) fs then Inl (NotADirectoryError name)
          else if \<not> isdir (butlast k) fs then Inl (FileNotFoundError name)
          else Inr (fs\<lparr>dir_keys := dir_keys fs @ [k]\<rparr>))"

text \<open>
  \<^verbatim>\<open>os.makedirs(name, exist_ok)\<close>, as CPython writes it:
  \<^verbatim>\<open>
  head, tail = path.split(name)
  if not tail:
      head, tail = path.split(head)
  if head and tail and not path.exists(head):
      try:
          makedirs(head, exist_ok=exist_ok)
      except FileExistsError:
          pass
      if tail == curdir:
          return
  try:
      mkdir(name, mode)
  except OSError:
      if not exist_ok or not path.isdir(name):
          raise
  \<close>
  A failure carries the file system as the call left it.
\<close>

definition makedirs_split :: "string \<Rightarrow> string \<times> string" where
  "makedirs_split name =
     (if snd (os_path_split name) = [] then os_path_split (fst (os_path_split name))
      else os_path_split name)"

definition makedirs_leaf :: "string \<Rightarrow> bool \<Rightarrow> filesystem \<Rightarrow> (os_error \<times> filesystem) + filesystem" where
  "makedirs_leaf name exist_ok fs =
     (case os_mkdir name fs of
        Inr fs' \<Rightarrow> Inr fs'
      | Inl e \<Rightarrow> if \<not> exist_ok \<or> \<not> os_path_isdir name fs then Inl (e, fs) else Inr fs)"

lemma length_rstrip_sep: "length (rstrip_sep s) \<le> length s"
  unfolding rstrip_sep_def using length_dropWhile_le [of _ "rev s"] by simp

lemma os_path_split_length:
  "length (fst (os_path_split p)) + length (snd (os_path_split p)) \<le> length p"
proof -
  have "length (takeWhile (\<lambda>c. c \<noteq> CHR ''/'') (rev p)) + length (dropWhile (\<lambda>c. c \<noteq> CHR ''/'') (rev p))
          = length p"
    using length_append [of "takeWhile (\<lambda>c. c \<noteq> CHR ''/'') (rev p)"
        "dropWhile (\<lambda>c. c \<noteq> CHR ''/'') (rev p)"]
    by (simp only: takeWhile_dropWhile_id length_rev)
  moreover have "length (rstrip_sep (rev (dropWhile (\<lambda>c. c \<noteq> CHR ''/'') (rev p))))
          \<le> length (dropWhile (\<lambda>c. c \<noteq> CHR ''/'') (rev p))"
    using length_rstrip_sep [of "rev (dropWhile (\<lambda>c. c \<noteq> CHR ''/'') (rev p))"] by simp
  ultimately show ?thesis
    by (simp add: os_path_split_def Let_def)
qed

lemma makedirs_split_shorter:
  assumes "makedirs_split name = (head, tail)" and "tail \<noteq> []"
  shows "length head < length name"
proof (cases "snd (os_path_split name) = []")
  case True
  with assms have s: "os_path_split (fst (os_path_split name)) = (head, tail)"
    by (simp add: makedirs_split_def)
  have "length head + length tail \<le> length (fst (os_path_split name))"
    using os_path_split_length [of "fst (os_path_split name)"] s by simp
  moreover have "length (fst (os_path_split name)) \<le> length name"
    using os_path_split_length [of name] by simp
  ultimately show ?thesis using assms(2) by (cases tail) auto
next
  case False
  with assms have "os_path_split name = (head, tail)"
    by (simp add: makedirs_split_def)
  then show ?thesis
    using os_path_split_length [of name] assms(2) by (cases tail) auto
qed

function os_makedirs :: "string \<Rightarrow> bool \<Rightarrow> filesystem \<Rightarrow> (os_error \<times> filesystem) + filesystem" where
  "os_makedirs name exist_ok fs =
     (case makedirs_split name of
        (head, tail) \<Rightarrow>
          if head \<noteq> [] \<and> tail \<noteq> [] \<and> \<not> os_path_exists head fs then
            (case os_makedirs head exist_ok fs of
               Inl (FileExistsError p, fs') \<Rightarrow>
                 if tail = ''.'' then Inr fs' else makedirs_leaf name exist_ok fs'
             | Inl (e, fs') \<Rightarrow> Inl (e, fs')
             | Inr fs' \<Rightarrow>
                 if tail = ''.'' then Inr fs' else makedirs_leaf name exist_ok fs')
          else makedirs_leaf name exist_ok fs)"
  by pat_completeness auto
termination
  by (relation "measure (\<lambda>(name, exist_ok, fs). length name)")
     (auto dest: makedirs_split_shorter [OF sym])


text \<open>
  Listing a directory. The names of the entries of the directory \<open>d\<close> among the keys
  \<open>ks\<close>: an entry's name is never empty, \<^verbatim>\<open>.\<close> or \<^verbatim>\<open>..\<close>, holds no separator,
  and a directory lists every name once.
\<close>

definition valid_name :: "string \<Rightarrow> bool" where
  "valid_name n = (n \<noteq> [] \<and> CHR ''/'' \<notin> set n \<and> n \<noteq> ''.'' \<and> n \<noteq> ''..'')"

definition child_names :: "key \<Rightarrow> key list \<Rightarrow> string list" where
  "child_names d ks =
     remdups (map last (filter (\<lambda>k. k \<noteq> [] \<and> butlast k = d \<and> valid_name (last k)) ks))"

text \<open>
  \<^verbatim>\<open>os.scandir(path)\<close>, with the entries already split as \<^verbatim>\<open>os.walk\<close> splits them,
  into the names of the directories and the names of the other entries.
\<close>

definition os_scandir :: "string \<Rightarrow> filesystem \<Rightarrow> os_error + (string list \<times> string list)" where
  "os_scandir path fs =
     (case resolve fs path of
        None \<Rightarrow> Inl (FileNotFoundError path)
      | Some d \<Rightarrow>
          if isfile d fs then Inl (NotADirectoryError path)
          else if \<not> isdir d fs then Inl (FileNotFoundError path)
          else if d \<in> set (unreadable fs) then Inl (PermissionError path)
          else Inr (child_names d (dir_keys fs),
                    child_names d (filter (\<lambda>k. \<not> isdir k fs) (map fst (file_data fs)))))"

text \<open>
  \<^verbatim>\<open>os.rename(src, dst)\<close> for a source that is not a directory: renaming a file to
  itself does nothing; otherwise the source must be a file, the parent of the
  destination a directory and the destination not a directory; a file at the
  destination is replaced. The script only ever moves names that a listing reported as
  non-directories, so the renaming of a directory is not part of the model: it is
  reported as \<open>OSError\<close>.
\<close>

definition os_rename :: "string \<Rightarrow> string \<Rightarrow> filesystem \<Rightarrow> os_error + filesystem" where
  "os_rename src dst fs =
     (case resolve fs src of
        None \<Rightarrow> Inl (FileNotFoundError src)
      | Some s \<Rightarrow>
          (case resolve fs dst of
             None \<Rightarrow> Inl (FileNotFoundError dst)
           | Some d \<Rightarrow>
               if s = d \<and> (isdir s fs \<or> isfile s fs) then Inr fs
               else if isdir s fs then Inl (OSError src)
               else if \<not> isfile s fs then Inl (FileNotFoundError src)
               else if isdir d fs then Inl (IsADirectoryError dst)
               else if isfile (butlast d) fs then Inl (NotADirectoryError dst)
               else if \<not> isdir (butlast d) fs then Inl (FileNotFoundError dst)
               else Inr (fs\<lparr>file_data := (d, the (map_of (file_data fs) s))
                                  # filter (\<lambda>(k, c). k \<noteq> s \<and> k \<noteq> d) (file_data fs)\<rparr>)))"

text \<open>
  \<^verbatim>\<open>shutil.move(src, dst)\<close>, as CPython writes it:
  \<^verbatim>\<open>
  real_dst = dst
  if os.path.isdir(dst):
      if _samefile(src, dst) and not os.path.islink(src):
          os.rename(src, dst)
          return
      real_dst = os.path.join(dst, _basename(src))
      if os.path.exists(real_dst):
          raise Error("Destination path '%s' already exists" % real_dst)
  try:
      os.rename(src, real_dst)
  except OSError:
      ...
  \<close>
  When the rename fails, CPython copies a regular file and unlinks the source. In this
  file system a rename fails only where the copy fails as well (no source file, no
  directory to hold the destination), so the failure of the rename is the failure of
  the move.
\<close>

definition samefile :: "string \<Rightarrow> string \<Rightarrow> filesystem \<Rightarrow> bool" where
  "samefile src dst fs =
     (os_path_exists src fs \<and> os_path_exists dst fs \<and> resolve fs src = resolve fs dst)"

definition shutil_move :: "string \<Rightarrow> string \<Rightarrow> filesystem \<Rightarrow> os_error + filesystem" where
  "shutil_move src dst fs =
     (if os_path_isdir dst fs then
        (if samefile src dst fs then os_rename src dst fs
         else (let real_dst = os_path_join dst (shutil_basename src)
               in if os_path_exists real_dst fs then Inl (ShutilError real_dst)
                  else os_rename src real_dst fs))
      else os_rename src dst fs)"

section \<open>The script\<close>

text \<open>
  The state of a run: the four module variables of the script, which the loop reads
  anew at every iteration; the file system; the lines printed so far; and, for the
  specification only, the calls made to the file system so far, each with the file
  system as it was when the call was made.
\<close>

datatype call = Makedirs string | Scandir string | Move string string

record world =
  source_dir :: string
  destination_dir :: string
  file_extensions :: "string set"
  search_keyword :: string
  disk :: filesystem
  console :: "string list"
  calls :: "(call \<times> filesystem) list"

text \<open>
  The condition of line 22:
  \<^verbatim>\<open>search_keyword.lower() in file.lower() and
     any(file.lower().endswith(ext) for ext in file_extensions)\<close>
\<close>

definition matches :: "world \<Rightarrow> string \<Rightarrow> bool" where
  "matches w file =
     (sublist (str_lower (search_keyword w)) (str_lower file) \<and>
      (\<exists>ext \<in> file_extensions w. suffix ext (str_lower file)))"

text \<open>
  The body of the inner loop (lines 22 to 28). A move that raises ends the run: the
  result is then the error with the state in which it was raised.
\<close>

definition moved_line :: "string \<Rightarrow> string \<Rightarrow> string" where
  "moved_line source_path destination_path =
     ''Moved: '' @ source_path @ '' -> '' @ destination_path"

definition loop_body :: "string \<Rightarrow> string \<Rightarrow> world \<Rightarrow> (os_error \<times> world) + world" where
  "loop_body root file w =
     (if matches w file then
        (let source_path = os_path_join root file;
             destination_path = os_path_join (destination_dir w) file;
             w1 = w\<lparr>calls := calls w @ [(Move source_path destination_path, disk w)]\<rparr>
         in case shutil_move source_path destination_path (disk w) of
              Inl e \<Rightarrow> Inl (e, w1)
            | Inr fs' \<Rightarrow>
                Inr (w1\<lparr>disk := fs',
                        console := console w1 @ [moved_line source_path destination_path]\<rparr>))
      else Inr w)"

text \<open>The inner loop, \<^verbatim>\<open>for file in files\<close>.\<close>

fun for_files :: "string \<Rightarrow> string list \<Rightarrow> world \<Rightarrow> (os_error \<times> world) + world" where
  "for_files root [] w = Inr w"
| "for_files root (file # files) w =
     (case loop_body root file w of
        Inl ew \<Rightarrow> Inl ew
      | Inr w' \<Rightarrow> for_files root files w')"


subsection \<open>Facts about path names and listings\<close>

lemma split_sep_nonempty [simp]: "split_sep s \<noteq> []"
  by (induction s) (auto split: list.splits)

lemma split_sep_append_sep:
  "split_sep (a @ CHR ''/'' # b) = split_sep a @ split_sep b"
  by (induction a) (auto split: list.splits)

lemma split_sep_nosep: "CHR ''/'' \<notin> set n \<Longrightarrow> split_sep n = [n]"
  by (induction n) (auto split: list.splits)

lemma split_sep_snoc_sep: "split_sep (a @ ''/'') = split_sep a @ [[]]"
  using split_sep_append_sep [of a "[]"] by simp

lemma walk_comp_valid: "valid_name n \<Longrightarrow> walk_comp k n = k @ [n]"
  by (simp add: walk_comp_def valid_name_def)

lemma resolve_join_child:
  assumes "resolve fs path = Some d" and "valid_name n"
  shows "resolve fs (os_path_join path n) = Some (d @ [n])"
proof -
  from assms(1) have ne: "path \<noteq> []" by (auto simp: resolve_def split: if_splits)
  from assms(2) have n: "n \<noteq> []" "CHR ''/'' \<notin> set n" by (auto simp: valid_name_def)
  then have np: "\<not> prefix ''/'' n" by (cases n) auto
  let ?start = "if prefix ''/'' path then [] else cwd fs"
  from assms(1) ne have d: "d = foldl walk_comp ?start (split_sep path)"
    by (simp add: resolve_def)
  show ?thesis
  proof (cases "suffix ''/'' path")
    case True
    then obtain t where t: "path = t @ ''/''" by (auto simp: suffix_def)
    have j: "os_path_join path n = t @ CHR ''/'' # n"
      using np True t by (simp add: os_path_join_def)
    have pj: "prefix ''/'' (t @ CHR ''/'' # n) = prefix ''/'' path"
      using t by (cases t) auto
    have "split_sep (t @ CHR ''/'' # n) = split_sep t @ [n]"
      using n by (simp add: split_sep_append_sep split_sep_nosep)
    moreover have "split_sep path = split_sep t @ [[]]"
      using t split_sep_snoc_sep by simp
    ultimately show ?thesis
      using d assms(2) unfolding j by (simp add: resolve_def pj walk_comp_valid) (simp add: walk_comp_def)
  next
    case False
    have j: "os_path_join path n = path @ CHR ''/'' # n"
      using np False ne by (simp add: os_path_join_def)
    have pj: "prefix ''/'' (path @ CHR ''/'' # n) = prefix ''/'' path"
      using ne by (cases path) auto
    have "split_sep (path @ CHR ''/'' # n) = split_sep path @ [n]"
      using n by (simp add: split_sep_append_sep split_sep_nosep)
    then show ?thesis
      using d assms(2) unfolding j by (simp add: resolve_def pj walk_comp_valid)
  qed
qed

lemma child_names_mem:
  "n \<in> set (child_names d ks) \<longleftrightarrow> valid_name n \<and> d @ [n] \<in> set ks"
  by (auto simp: child_names_def image_iff snoc_eq_iff_butlast intro!: bexI [of _ "d @ [n]"])

subsection \<open>What a move leaves alone\<close>

text \<open>
  A move changes files only: the working directory, the directories and their
  permissions stay as they are.
\<close>

definition same_tree :: "filesystem \<Rightarrow> filesystem \<Rightarrow> bool" where
  "same_tree fs fs' =
     (cwd fs' = cwd fs \<and> dir_keys fs' = dir_keys fs \<and> unreadable fs' = unreadable fs)"

lemma same_tree_refl [simp]: "same_tree fs fs"
  by (simp add: same_tree_def)

lemma same_tree_trans: "same_tree a b \<Longrightarrow> same_tree b c \<Longrightarrow> same_tree a c"
  by (simp add: same_tree_def)

lemma os_rename_same_tree: "os_rename src dst fs = Inr fs' \<Longrightarrow> same_tree fs fs'"
  by (auto simp: os_rename_def same_tree_def split: option.splits if_splits)

lemma shutil_move_same_tree: "shutil_move src dst fs = Inr fs' \<Longrightarrow> same_tree fs fs'"
  by (auto simp: shutil_move_def Let_def dest: os_rename_same_tree split: if_splits)

definition same_vars :: "world \<Rightarrow> world \<Rightarrow> bool" where
  "same_vars w w' =
     (source_dir w' = source_dir w \<and> destination_dir w' = destination_dir w \<and>
      file_extensions w' = file_extensions w \<and> search_keyword w' = search_keyword w)"

lemma loop_body_same_tree:
  "loop_body root file w = Inr w' \<Longrightarrow> same_tree (disk w) (disk w')"
  by (auto simp: loop_body_def Let_def dest: shutil_move_same_tree split: if_splits sum.splits)

lemma for_files_same_tree:
  "for_files root files w = Inr w' \<Longrightarrow> same_tree (disk w) (disk w')"
proof (induction files arbitrary: w)
  case Nil
  then show ?case by simp
next
  case (Cons f fs)
  then show ?case
    by (auto split: sum.splits dest: loop_body_same_tree intro: same_tree_trans)
qed


subsection \<open>The outer loop\<close>

text \<open>
  \<^verbatim>\<open>for root, _, files in os.walk(source_dir)\<close>. The generator \<^verbatim>\<open>os.walk\<close> keeps a
  stack of directories still to visit; it lists a directory only when the loop asks for
  the next triple, that is after the loop body has run on the files of the directory
  before. A directory that cannot be listed is skipped (\<^verbatim>\<open>onerror\<close> is \<open>None\<close>):
  \<^verbatim>\<open>
  stack = [top]
  while stack:
      top = stack.pop()
      try:
          scandir_it = scandir(top)
      except OSError as error:
          continue
      ... dirs, nondirs: the names of the entries ...
      yield top, dirs, nondirs
      for dirname in reversed(dirs):
          stack.append(join(top, dirname))
  \<close>
  The loop ends because every directory pushed lies one level below the one popped, and
  the directories do not change while it runs.
\<close>

definition rank :: "filesystem \<Rightarrow> string \<Rightarrow> nat" where
  "rank fs path =
     (case resolve fs path of
        None \<Rightarrow> 0
      | Some d \<Rightarrow> Suc (sum_list (map length (dir_keys fs)) - length d))"

lemma rank_same_tree: "same_tree fs fs' \<Longrightarrow> rank fs' = rank fs"
  by (auto simp: rank_def same_tree_def resolve_def fun_eq_iff)

lemma rank_child:
  assumes "os_scandir path fs = Inr (ds, nondirs)" and "n \<in> set ds"
  shows "rank fs (os_path_join path n) < rank fs path"
proof -
  from assms(1) obtain d where d: "resolve fs path = Some d"
    and ds: "ds = child_names d (dir_keys fs)"
    by (auto simp: os_scandir_def split: option.splits if_splits)
  from assms(2) ds have v: "valid_name n" and m: "d @ [n] \<in> set (dir_keys fs)"
    by (simp_all add: child_names_mem)
  have "length (d @ [n]) \<le> sum_list (map length (dir_keys fs))"
    using member_le_sum_list [of "length (d @ [n])" "map length (dir_keys fs)"] m by force
  then show ?thesis
    using d resolve_join_child [OF d v] by (simp add: rank_def)
qed

function os_walk_loop :: "string list \<Rightarrow> world \<Rightarrow> (os_error \<times> world) + world" where
  "os_walk_loop [] w = Inr w"
| "os_walk_loop (path # stack) w =
     (let w1 = w\<lparr>calls := calls w @ [(Scandir path, disk w)]\<rparr>
      in case os_scandir path (disk w) of
           Inl e \<Rightarrow> os_walk_loop stack w1
         | Inr (ds, nondirs) \<Rightarrow>
             (case for_files path nondirs w1 of
                Inl ew \<Rightarrow> Inl ew
              | Inr w' \<Rightarrow> os_walk_loop (map (os_path_join path) ds @ stack) w'))"
  by pat_completeness auto
termination
proof (relation "inv_image (mult less_than) (\<lambda>(stack, w). mset (map (rank (disk w)) stack))")
  show "wf (inv_image (mult less_than) (\<lambda>(stack, w). mset (map (rank (disk w)) stack)))"
    by (simp add: wf_mult)
next
  fix path stack e and w w1 :: world
  assume "w1 = w\<lparr>calls := calls w @ [(Scandir path, disk w)]\<rparr>"
  then have "disk w1 = disk w" by simp
  moreover have "(mset (map (rank (disk w)) stack) + {#},
                  mset (map (rank (disk w)) stack) + {#rank (disk w) path#}) \<in> mult less_than"
    by (rule one_step_implies_mult) simp_all
  ultimately show "((stack, w1), (path # stack, w)) \<in>
      inv_image (mult less_than) (\<lambda>(stack, w). mset (map (rank (disk w)) stack))"
    by simp
next
  fix path stack x ds nondirs and w w1 w' :: world
  assume w1: "w1 = w\<lparr>calls := calls w @ [(Scandir path, disk w)]\<rparr>"
    and sc: "os_scandir path (disk w) = Inr x" "(ds, nondirs) = x"
    and ff: "for_files path nondirs w1 = Inr w'"
  from w1 have "disk w1 = disk w" by simp
  with for_files_same_tree [OF ff] have r: "rank (disk w') = rank (disk w)"
    by (simp add: rank_same_tree)
  define cs where "cs = map (os_path_join path) ds"
  have "(mset (map (rank (disk w)) stack) + mset (map (rank (disk w)) cs),
         mset (map (rank (disk w)) stack) + {#rank (disk w) path#}) \<in> mult less_than"
  proof (rule one_step_implies_mult)
    show "{#rank (disk w) path#} \<noteq> {#}" by simp
    show "\<forall>k\<in>#mset (map (rank (disk w)) cs).
            \<exists>j\<in>#{#rank (disk w) path#}. (k, j) \<in> less_than"
      using rank_child [of path "disk w" ds nondirs] sc by (auto simp: cs_def)
  qed
  then show "((map (os_path_join path) ds @ stack, w'), (path # stack, w)) \<in>
      inv_image (mult less_than) (\<lambda>(stack, w). mset (map (rank (disk w)) stack))"
    using r unfolding cs_def [symmetric] by (simp add: add.commute)
qed

text \<open>Lines 20 to 28, the loop over the walk of the source directory.\<close>

definition move_matching :: "world \<Rightarrow> (os_error \<times> world) + world" where
  "move_matching w = os_walk_loop [source_dir w] w"

text \<open>
  The whole script, line by line. The argument \<open>home\<close> is the home directory of the
  user (see \<open>os_path_expanduser\<close>); \<open>w0\<close> is the state in which the script starts.
\<close>

definition script :: "string option \<Rightarrow> world \<Rightarrow> (os_error \<times> world) + world" where
  "script home w0 =
     (let w1 = w0\<lparr>source_dir := ''path/to/your/subdirectory''\<rparr>;
          w2 = w1\<lparr>destination_dir := os_path_expanduser home ''~/Desktop/Filtered_Files''\<rparr>;
          w3 = w2\<lparr>calls := calls w2 @ [(Makedirs (destination_dir w2), disk w2)]\<rparr>
      in case os_makedirs (destination_dir w3) True (disk w3) of
           Inl (e, fs') \<Rightarrow> Inl (e, w3\<lparr>disk := fs'\<rparr>)
         | Inr fs' \<Rightarrow>
             (let w4 = w3\<lparr>disk := fs'\<rparr>;
                  w5 = w4\<lparr>file_extensions :=
                          {''.mp4'', ''.avi'', ''.mov'', ''.mkv'', ''.flv'', ''.wmv''}\<rparr>;
                  w6 = w5\<lparr>search_keyword := ''play''\<rparr>
              in case move_matching w6 of
                   Inl ew \<Rightarrow> Inl ew
                 | Inr w7 \<Rightarrow> Inr (w7\<lparr>console := console w7 @ [''Transfer complete.'']\<rparr>)))"


text \<open>The state in which a run ended, whether it completed or was ended by an error.\<close>

definition final :: "(os_error \<times> world) + world \<Rightarrow> world" where
  "final r = (case r of Inl (e, w) \<Rightarrow> w | Inr w \<Rightarrow> w)"


section \<open>The history of a run\<close>

text \<open>
  Notions for the specification, read off the history of calls. The lines that the
  moves of a history print: one line for every move that succeeded on the file system on
  which it was made.
\<close>

fun moved_lines :: "(call \<times> filesystem) list \<Rightarrow> string list" where
  "moved_lines [] = []"
| "moved_lines ((Move s d, fs) # cs) =
     (case shutil_move s d fs of
        Inl e \<Rightarrow> moved_lines cs
      | Inr fs' \<Rightarrow> moved_line s d # moved_lines cs)"
| "moved_lines ((Makedirs p, fs) # cs) = moved_lines cs"
| "moved_lines ((Scandir p, fs) # cs) = moved_lines cs"

text \<open>
  The error of a call on the file system on which it was made, if it failed; whether a
  call is a listing; the calls that a run added to the history; and what holds of a run
  of the loops: the history and the console grow, directories stay, every call is a
  listing or a move, no call but the last fails unless it is a listing, and a run that
  an error ended was ended by its last call, which is not a listing.
\<close>

fun call_error :: "call \<times> filesystem \<Rightarrow> os_error option" where
  "call_error (Makedirs p, fs) = (case os_makedirs p True fs of Inl (e, fs') \<Rightarrow> Some e | Inr fs' \<Rightarrow> None)"
| "call_error (Scandir p, fs) = (case os_scandir p fs of Inl e \<Rightarrow> Some e | Inr x \<Rightarrow> None)"
| "call_error (Move s d, fs) = (case shutil_move s d fs of Inl e \<Rightarrow> Some e | Inr fs' \<Rightarrow> None)"

fun is_listing :: "call \<times> filesystem \<Rightarrow> bool" where
  "is_listing (Scandir p, fs) = True"
| "is_listing (c, fs) = False"

definition new_calls :: "world \<Rightarrow> (os_error \<times> world) + world \<Rightarrow> (call \<times> filesystem) list" where
  "new_calls w r = drop (length (calls w)) (calls (final r))"

definition walk_call :: "filesystem \<Rightarrow> call \<times> filesystem \<Rightarrow> bool" where
  "walk_call fs0 x = (same_tree fs0 (snd x) \<and> (\<forall>p. fst x \<noteq> Makedirs p))"

definition loop_inv :: "world \<Rightarrow> (os_error \<times> world) + world \<Rightarrow> (call \<times> filesystem) list \<Rightarrow> bool" where
  "loop_inv w r cs =
     (calls (final r) = calls w @ cs \<and>
      console (final r) = console w @ moved_lines cs \<and>
      same_tree (disk w) (disk (final r)) \<and>
      list_all (walk_call (disk w)) cs \<and>
      list_all (\<lambda>x. call_error x = None \<or> is_listing x) (butlast cs) \<and>
      (case r of
         Inl (e, w') \<Rightarrow> cs \<noteq> [] \<and> \<not> is_listing (last cs) \<and> call_error (last cs) = Some e \<and>
                         disk w' = snd (last cs)
       | Inr w' \<Rightarrow> list_all (\<lambda>x. call_error x = None \<or> is_listing x) cs))"

text \<open>
  The key that a path reaches from a starting key; a file system that differs from
  another only by directories it has in addition; the file system that
  \<open>os_makedirs\<close> leaves, whether it failed or not.
\<close>

definition key_of :: "key \<Rightarrow> string \<Rightarrow> key" where
  "key_of start p = foldl walk_comp start (split_sep p)"

definition grows :: "filesystem \<Rightarrow> filesystem \<Rightarrow> bool" where
  "grows fs fs' =
     (cwd fs' = cwd fs \<and> unreadable fs' = unreadable fs \<and> file_data fs' = file_data fs \<and>
      set (dir_keys fs) \<subseteq> set (dir_keys fs') \<and>
      (distinct (dir_keys fs) \<longrightarrow> distinct (dir_keys fs')))"

definition made :: "(os_error \<times> filesystem) + filesystem \<Rightarrow> filesystem" where
  "made r = (case r of Inl (e, fs) \<Rightarrow> fs | Inr fs \<Rightarrow> fs)"

text \<open>
  The state in which the loops start when the destination directory has been created
  and \<open>os_makedirs\<close> left the file system \<open>fs'\<close>; and the file system that a call leaves
  when it fails.
\<close>

definition loop_start :: "string option \<Rightarrow> world \<Rightarrow> filesystem \<Rightarrow> world" where
  "loop_start home w0 fs' =
     w0\<lparr>source_dir := ''path/to/your/subdirectory'',
        destination_dir := os_path_expanduser home ''~/Desktop/Filtered_Files'',
        file_extensions := {''.mp4'', ''.avi'', ''.mov'', ''.mkv'', ''.flv'', ''.wmv''},
        search_keyword := ''play'',
        disk := fs',
        calls := calls w0 @ [(Makedirs (os_path_expanduser home ''~/Desktop/Filtered_Files''), disk w0)]\<rparr>"

fun left_by :: "call \<times> filesystem \<Rightarrow> filesystem" where
  "left_by (Makedirs p, fs) = made (os_makedirs p True fs)"
| "left_by (c, fs) = fs"

text \<open>
  What holds of every run of the script: its first call creates the destination
  directory; if that fails there is no other call; every later call is a listing or a
  move, made on a file system in which the destination is a directory; no call but the
  last fails unless it is a listing; the console holds the lines of the moves and, if
  the run completed, the last line; a run that an error ended was ended by its last call.
\<close>

definition script_inv :: "string option \<Rightarrow> world \<Rightarrow> (call \<times> filesystem) list \<Rightarrow> bool" where
  "script_inv home w0 cs =
     (let D = os_path_expanduser home ''~/Desktop/Filtered_Files''; r = script home w0 in
      calls (final r) = calls w0 @ cs \<and>
      cs \<noteq> [] \<and> hd cs = (Makedirs D, disk w0) \<and>
      (call_error (hd cs) \<noteq> None \<longrightarrow> tl cs = []) \<and>
      list_all (\<lambda>x. (\<forall>p. fst x \<noteq> Makedirs p) \<and> os_path_isdir D (snd x)) (tl cs) \<and>
      list_all (\<lambda>x. call_error x = None \<or> is_listing x) (butlast cs) \<and>
      console (final r) =
        console w0 @ moved_lines cs @ (if isl r then [] else [''Transfer complete.'']) \<and>
      (case r of
         Inl (e, w') \<Rightarrow> \<not> is_listing (last cs) \<and> call_error (last cs) = Some e \<and>
                         disk w' = left_by (last cs)
       | Inr w' \<Rightarrow> list_all (\<lambda>x. call_error x = None \<or> is_listing x) cs))"

section \<open>Files under the source tree\<close>




text \<open>
  The key at which a move of a file named \<open>n\<close> puts it: the destination path
  \<^verbatim>\<open>os.path.join(destination_dir, n)\<close>, or the entry \<open>n\<close> inside it when that path is
  an existing directory. A file that was at the key \<open>k\<close> is relocated in a file system
  when a file is at the key to which its move goes and none is left at \<open>k\<close>, unless
  \<open>k\<close> is that very key.
\<close>

definition target_key :: "world \<Rightarrow> string \<Rightarrow> key" where
  "target_key w n =
     (case resolve (disk w) (os_path_join (destination_dir w) n) of
        None \<Rightarrow> []
      | Some t \<Rightarrow> if isdir t (disk w) then t @ [n] else t)"




section \<open>Example states\<close>

text \<open>
  The scenario of the specification: the source tree holds \<^verbatim>\<open>a/clip_play.mp4\<close>,
  \<^verbatim>\<open>b/notes.txt\<close> and \<^verbatim>\<open>c/play_logo.png\<close>; the home directory is \<^verbatim>\<open>/home/u\<close> and
  the script starts in \<^verbatim>\<open>/work\<close>.
\<close>

definition scenario_fs :: filesystem where
  "scenario_fs =
     \<lparr>cwd = [''work''],
      dir_keys =
        [[''home''], [''home'', ''u''], [''work''], [''work'', ''path''],
         [''work'', ''path'', ''to''], [''work'', ''path'', ''to'', ''your''],
         [''work'', ''path'', ''to'', ''your'', ''subdirectory''],
         [''work'', ''path'', ''to'', ''your'', ''subdirectory'', ''a''],
         [''work'', ''path'', ''to'', ''your'', ''subdirectory'', ''b''],
         [''work'', ''path'', ''to'', ''your'', ''subdirectory'', ''c'']],
      file_data =
        [([''work'', ''path'', ''to'', ''your'', ''subdirectory'', ''a'', ''clip_play.mp4''], ''clip''),
         ([''work'', ''path'', ''to'', ''your'', ''subdirectory'', ''b'', ''notes.txt''], ''notes''),
         ([''work'', ''path'', ''to'', ''your'', ''subdirectory'', ''c'', ''play_logo.png''], ''logo'')],
      unreadable = []\<rparr>"

definition scenario_world :: world where
  "scenario_world =
     \<lparr>source_dir = [], destination_dir = [], file_extensions = {}, search_keyword = [],
      disk = scenario_fs, console = [], calls = []\<rparr>"

text \<open>
  The file system of the scenario after the destination directory has been created, and
  after the one matching file has been moved; the state in which the run of the script
  ends.
\<close>

definition scenario_made :: filesystem where
  "scenario_made =
     scenario_fs\<lparr>dir_keys := dir_keys scenario_fs @
       [[''home'', ''u'', ''Desktop''], [''home'', ''u'', ''Desktop'', ''Filtered_Files'']]\<rparr>"

definition scenario_moved :: filesystem where
  "scenario_moved =
     scenario_made\<lparr>file_data :=
       [([''home'', ''u'', ''Desktop'', ''Filtered_Files'', ''clip_play.mp4''], ''clip''),
        ([''work'', ''path'', ''to'', ''your'', ''subdirectory'', ''b'', ''notes.txt''], ''notes''),
        ([''work'', ''path'', ''to'', ''your'', ''subdirectory'', ''c'', ''play_logo.png''], ''logo'')]\<rparr>"

definition scenario_end :: world where
  "scenario_end =
     \<lparr>source_dir = ''path/to/your/subdirectory'',
      destination_dir = ''/home/u/Desktop/Filtered_Files'',
      file_extensions = {''.mp4'', ''.avi'', ''.mov'', ''.mkv'', ''.flv'', ''.wmv''},
      search_keyword = ''play'',
      disk = scenario_moved,
      console =
        [''Moved: path/to/your/subdirectory/a/clip_play.mp4 -> /home/u/Desktop/Filtered_Files/clip_play.mp4'',
         ''Transfer complete.''],
      calls =
        [(Makedirs ''/home/u/Desktop/Filtered_Files'', scenario_fs),
         (Scandir ''path/to/your/subdirectory'', scenario_made),
         (Scandir ''path/to/your/subdirectory/a'', scenario_made),
         (Move ''path/to/your/subdirectory/a/clip_play.mp4''
               ''/home/u/Desktop/Filtered_Files/clip_play.mp4'', scenario_made),
         (Scandir ''path/to/your/subdirectory/b'', scenario_moved),
         (Scandir ''path/to/your/subdirectory/c'', scenario_moved)]\<rparr>"

text \<open>A state with the configuration of the script, for properties of single steps.\<close>

definition configured_world :: world where
  "configured_world =
     scenario_world
       \<lparr>source_dir := ''path/to/your/subdirectory'',
        destination_dir := ''/home/u/Desktop/Filtered_Files'',
        file_extensions := {''.mp4'', ''.avi'', ''.mov'', ''.mkv'', ''.flv'', ''.wmv''},
        search_keyword := ''play''\<rparr>"

text \<open>
  A file system without the source directory, what the creation of the destination
  directory makes of it, and the state in which the run of the script ends there.
\<close>

definition bare_fs :: filesystem where
  "bare_fs =
     \<lparr>cwd = [''work''], dir_keys = [[''home''], [''home'', ''u''], [''work'']],
      file_data = [], unreadable = []\<rparr>"

definition bare_world :: world where
  "bare_world = scenario_world\<lparr>disk := bare_fs\<rparr>"

definition bare_made :: filesystem where
  "bare_made =
     bare_fs\<lparr>dir_keys := dir_keys bare_fs @
       [[''home'', ''u'', ''Desktop''], [''home'', ''u'', ''Desktop'', ''Filtered_Files'']]\<rparr>"

definition bare_end :: world where
  "bare_end =
     \<lparr>source_dir = ''path/to/your/subdirectory'',
      destination_dir = ''/home/u/Desktop/Filtered_Files'',
      file_extensions = {''.mp4'', ''.avi'', ''.mov'', ''.mkv'', ''.flv'', ''.wmv''},
      search_keyword = ''play'',
      disk = bare_made,
      console = [''Transfer complete.''],
      calls =
        [(Makedirs ''/home/u/Desktop/Filtered_Files'', bare_fs),
         (Scandir ''path/to/your/subdirectory'', bare_made)]\<rparr>"

text \<open>
  A file system in which the destination directory exists and holds a directory named
  \<^verbatim>\<open>clip_play.mp4\<close> with a file of that name in it, while the source tree holds three
  matching files; the file system after the first of them has been moved; and the state
  in which the run of the script is ended there, by the second move.
\<close>

definition crowded_fs :: filesystem where
  "crowded_fs =
     \<lparr>cwd = [''work''],
      dir_keys =
        [[''home''], [''home'', ''u''], [''home'', ''u'', ''Desktop''],
         [''home'', ''u'', ''Desktop'', ''Filtered_Files''],
         [''home'', ''u'', ''Desktop'', ''Filtered_Files'', ''clip_play.mp4''],
         [''work''], [''work'', ''path''],
         [''work'', ''path'', ''to''], [''work'', ''path'', ''to'', ''your''],
         [''work'', ''path'', ''to'', ''your'', ''subdirectory''],
         [''work'', ''path'', ''to'', ''your'', ''subdirectory'', ''a''],
         [''work'', ''path'', ''to'', ''your'', ''subdirectory'', ''b''],
         [''work'', ''path'', ''to'', ''your'', ''subdirectory'', ''c'']],
      file_data =
        [([''home'', ''u'', ''Desktop'', ''Filtered_Files'', ''clip_play.mp4'', ''clip_play.mp4''], ''old''),
         ([''work'', ''path'', ''to'', ''your'', ''subdirectory'', ''a'', ''intro_play.mov''], ''intro''),
         ([''work'', ''path'', ''to'', ''your'', ''subdirectory'', ''b'', ''clip_play.mp4''], ''clip''),
         ([''work'', ''path'', ''to'', ''your'', ''subdirectory'', ''c'', ''outro_play.avi''], ''outro'')],
      unreadable = []\<rparr>"

definition crowded_world :: world where
  "crowded_world = scenario_world\<lparr>disk := crowded_fs\<rparr>"

definition crowded_moved :: filesystem where
  "crowded_moved =
     crowded_fs\<lparr>file_data :=
       [([''home'', ''u'', ''Desktop'', ''Filtered_Files'', ''intro_play.mov''], ''intro''),
        ([''home'', ''u'', ''Desktop'', ''Filtered_Files'', ''clip_play.mp4'', ''clip_play.mp4''], ''old''),
        ([''work'', ''path'', ''to'', ''your'', ''subdirectory'', ''b'', ''clip_play.mp4''], ''clip''),
        ([''work'', ''path'', ''to'', ''your'', ''subdirectory'', ''c'', ''outro_play.avi''], ''outro'')]\<rparr>"

definition crowded_end :: world where
  "crowded_end =
     \<lparr>source_dir = ''path/to/your/subdirectory'',
      destination_dir = ''/home/u/Desktop/Filtered_Files'',
      file_extensions = {''.mp4'', ''.avi'', ''.mov'', ''.mkv'', ''.flv'', ''.wmv''},
      search_keyword = ''play'',
      disk = crowded_moved,
      console =
        [''Moved: path/to/your/subdirectory/a/intro_play.mov -> /home/u/Desktop/Filtered_Files/intro_play.mov''],
      calls =
        [(Makedirs ''/home/u/Desktop/Filtered_Files'', crowded_fs),
         (Scandir ''path/to/your/subdirectory'', crowded_fs),
         (Scandir ''path/to/your/subdirectory/a'', crowded_fs),
         (Move ''path/to/your/subdirectory/a/intro_play.mov''
               ''/home/u/Desktop/Filtered_Files/intro_play.mov'', crowded_fs),
         (Scandir ''path/to/your/subdirectory/b'', crowded_moved),
         (Move ''path/to/your/subdirectory/b/clip_play.mp4''
               ''/home/u/Desktop/Filtered_Files/clip_play.mp4'', crowded_moved)]\<rparr>"

text \<open>A state of the traversal in which the subdirectory \<^verbatim>\<open>a\<close> may not be listed.\<close>

definition locked_world :: world where
  "locked_world =
     configured_world\<lparr>disk := scenario_made
       \<lparr>unreadable := [[''work'', ''path'', ''to'', ''your'', ''subdirectory'', ''a'']]\<rparr>\<rparr>"

text \<open>
  The state in which the loops start in the scenario, and the state in which they end.
\<close>

definition walk_start :: world where
  "walk_start = configured_world\<lparr>disk := scenario_made\<rparr>"


text \<open>The state after the loop body has moved \<^verbatim>\<open>a/clip_play.mp4\<close> from \<open>walk_start\<close>.\<close>

definition walk_moved :: world where
  "walk_moved =
     walk_start
       \<lparr>calls := [(Move ''path/to/your/subdirectory/a/clip_play.mp4''
                        ''/home/u/Desktop/Filtered_Files/clip_play.mp4'', scenario_made)],
        disk := scenario_moved,
        console :=
          [''Moved: path/to/your/subdirectory/a/clip_play.mp4 -> /home/u/Desktop/Filtered_Files/clip_play.mp4'']\<rparr>"

text \<open>
  The scenario with a destination directory that already holds a directory named
  \<^verbatim>\<open>clip_play.mp4\<close>.
\<close>

definition nested_fs :: filesystem where
  "nested_fs =
     scenario_made\<lparr>dir_keys := dir_keys scenario_made @
       [[''home'', ''u'', ''Desktop'', ''Filtered_Files'', ''clip_play.mp4'']]\<rparr>"

definition nested_world :: world where
  "nested_world = scenario_world\<lparr>disk := nested_fs\<rparr>"

definition nested_moved :: filesystem where
  "nested_moved =
     nested_fs\<lparr>file_data :=
       [([''home'', ''u'', ''Desktop'', ''Filtered_Files'', ''clip_play.mp4'', ''clip_play.mp4''], ''clip''),
        ([''work'', ''path'', ''to'', ''your'', ''subdirectory'', ''b'', ''notes.txt''], ''notes''),
        ([''work'', ''path'', ''to'', ''your'', ''subdirectory'', ''c'', ''play_logo.png''], ''logo'')]\<rparr>"

definition nested_end :: world where
  "nested_end =
     \<lparr>source_dir = ''path/to/your/subdirectory'',
      destination_dir = ''/home/u/Desktop/Filtered_Files'',
      file_extensions = {''.mp4'', ''.avi'', ''.mov'', ''.mkv'', ''.flv'', ''.wmv''},
      search_keyword = ''play'',
      disk = nested_moved,
      console =
        [''Moved: path/to/your/subdirectory/a/clip_play.mp4 -> /home/u/Desktop/Filtered_Files/clip_play.mp4'',
         ''Transfer complete.''],
      calls =
        [(Makedirs ''/home/u/Desktop/Filtered_Files'', nested_fs),
         (Scandir ''path/to/your/subdirectory'', nested_fs),
         (Scandir ''path/to/your/subdirectory/a'', nested_fs),
         (Move ''path/to/your/subdirectory/a/clip_play.mp4''
               ''/home/u/Desktop/Filtered_Files/clip_play.mp4'', nested_fs),
         (Scandir ''path/to/your/subdirectory/b'', nested_moved),
         (Scandir ''path/to/your/subdirectory/c'', nested_moved)]\<rparr>"

text \<open>
  The state in which the loop body finds the scenario with the nested directory, and
  the state in which it leaves it.
\<close>

definition nested_start :: world where
  "nested_start = configured_world\<lparr>disk := nested_fs\<rparr>"

definition nested_step :: world where
  "nested_step =
     nested_start
       \<lparr>calls := [(Move ''path/to/your/subdirectory/a/clip_play.mp4''
                        ''/home/u/Desktop/Filtered_Files/clip_play.mp4'', nested_fs)],
        disk := nested_moved,
        console :=
          [''Moved: path/to/your/subdirectory/a/clip_play.mp4 -> /home/u/Desktop/Filtered_Files/clip_play.mp4'']\<rparr>"

text \<open>
  A file system in which \<^verbatim>\<open>/home/u/Desktop\<close> is a regular file, so that the destination
  directory cannot be created, and the state in which the run of the script ends there.
\<close>

definition blocked_fs :: filesystem where
  "blocked_fs = bare_fs\<lparr>file_data := [([''home'', ''u'', ''Desktop''], ''x'')]\<rparr>"

definition blocked_world :: world where
  "blocked_world = scenario_world\<lparr>disk := blocked_fs\<rparr>"

definition blocked_end :: world where
  "blocked_end =
     blocked_world
       \<lparr>source_dir := ''path/to/your/subdirectory'',
        destination_dir := ''/home/u/Desktop/Filtered_Files'',
        calls := [(Makedirs ''/home/u/Desktop/Filtered_Files'', blocked_fs)]\<rparr>"

section \<open>Properties\<close>

subsection \<open>The module variables are never assigned by the loops\<close>

lemma final_simps [simp]: "final (Inl (e, w)) = w" "final (Inr w) = w"
  by (simp_all add: final_def)

lemma same_vars_refl [simp]: "same_vars w w"
  by (simp add: same_vars_def)

lemma same_vars_trans: "same_vars a b \<Longrightarrow> same_vars b c \<Longrightarrow> same_vars a c"
  by (simp add: same_vars_def)


lemma loop_body_same_vars: "same_vars w (final (loop_body root file w))"
  by (auto simp: loop_body_def Let_def same_vars_def split: sum.splits)

lemma for_files_same_vars: "same_vars w (final (for_files root files w))"
proof (induction files arbitrary: w)
  case Nil
  then show ?case by simp
next
  case (Cons f fs)
  show ?case
  proof (cases "loop_body root f w")
    case (Inl ew)
    then show ?thesis using loop_body_same_vars [of w root f] by (cases ew) simp
  next
    case (Inr w')
    then show ?thesis
      using loop_body_same_vars [of w root f] Cons.IH [of w'] by (auto intro: same_vars_trans)
  qed
qed

lemma os_walk_loop_same_vars: "same_vars w (final (os_walk_loop stack w))"
proof (induction stack w rule: os_walk_loop.induct)
  case (1 w)
  then show ?case by simp
next
  case (2 path stack w)
  define w1 where "w1 = w\<lparr>calls := calls w @ [(Scandir path, disk w)]\<rparr>"
  have v1: "same_vars w w1" by (simp add: w1_def same_vars_def)
  show ?case
  proof (cases "os_scandir path (disk w)")
    case (Inl e)
    then show ?thesis
      using 2(1) [OF w1_def Inl] v1 by (simp add: w1_def [symmetric] same_vars_trans)
  next
    case (Inr x)
    obtain ds nondirs where x: "x = (ds, nondirs)" by (cases x)
    show ?thesis
    proof (cases "for_files path nondirs w1")
      case (Inl ew)
      then show ?thesis
        using Inr x for_files_same_vars [of w1 path nondirs] v1
        by (cases ew) (auto simp: w1_def [symmetric] intro: same_vars_trans)
    next
      case ff: (Inr w')
      have "same_vars w1 w'" using for_files_same_vars [of w1 path nondirs] ff by simp
      moreover have "same_vars w' (final (os_walk_loop (map (os_path_join path) ds @ stack) w'))"
        using 2(2) [OF w1_def Inr x [symmetric] ff] .
      ultimately show ?thesis
        using Inr x ff v1 by (auto simp: w1_def [symmetric] intro: same_vars_trans)
    qed
  qed
qed

lemma lower_char_idem: "lower_char (lower_char c) = lower_char c"
  by (auto simp: lower_char_def split: option.splits if_splits)

lemma str_lower_idem [simp]: "str_lower (str_lower s) = str_lower s"
  by (simp add: str_lower_def lower_char_idem)


subsection \<open>Matching\<close>




lemma loop_body_skip_iff: "loop_body root file w = Inr w \<longleftrightarrow> \<not> matches w file"
proof -
  have "w\<lparr>calls := calls w @ [c], disk := fs', console := console w @ [l]\<rparr> \<noteq> w" for c fs' l
  proof
    assume "w\<lparr>calls := calls w @ [c], disk := fs', console := console w @ [l]\<rparr> = w"
    then have "calls (w\<lparr>calls := calls w @ [c], disk := fs', console := console w @ [l]\<rparr>) = calls w"
      by simp
    then show False by simp
  qed
  then show ?thesis
    by (auto simp: loop_body_def Let_def split: sum.splits)
qed


text \<open>
  Claim C10. Whether the loop body moves a file depends on the name of the file only,
  not on the directory that holds it: for two runs with the same keyword and the same
  extensions, in any two directories and any two states, the body skips the file (it
  returns the state as it was) in the one exactly when it skips it in the other, and the
  match predicate has the same value.
\<close>

theorem decision_depends_on_name_only:
  assumes "search_keyword w2 = search_keyword w1" and "file_extensions w2 = file_extensions w1"
  shows "(loop_body root1 file w1 = Inr w1) = (loop_body root2 file w2 = Inr w2) \<and>
         matches w1 file = matches w2 file"
  using assms by (simp add: loop_body_skip_iff) (simp add: matches_def)

theorem decision_depends_on_name_only_witness:
  "search_keyword (configured_world\<lparr>console := [''x'']\<rparr>) = search_keyword configured_world \<and>
   file_extensions (configured_world\<lparr>console := [''x'']\<rparr>) = file_extensions configured_world \<and>
   (loop_body ''path/to/your/subdirectory/b'' ''notes.txt'' configured_world = Inr configured_world) =
   (loop_body ''path/to/your/subdirectory/c'' ''notes.txt'' (configured_world\<lparr>console := [''x'']\<rparr>)
      = Inr (configured_world\<lparr>console := [''x'']\<rparr>)) \<and>
   matches configured_world ''notes.txt'' = matches (configured_world\<lparr>console := [''x'']\<rparr>) ''notes.txt''"
  using decision_depends_on_name_only [of "configured_world\<lparr>console := [''x'']\<rparr>" configured_world
      "''path/to/your/subdirectory/b''" "''notes.txt''" "''path/to/your/subdirectory/c''"]
  by simp

subsection \<open>The history of the loops\<close>

lemma moved_lines_append: "moved_lines (a @ b) = moved_lines a @ moved_lines b"
  by (induction a rule: moved_lines.induct) (auto split: sum.splits)

lemma loop_inv_refl: "loop_inv w (Inr w) []"
  by (simp add: loop_inv_def)

lemma walk_call_same_tree: "same_tree a b \<Longrightarrow> walk_call b x \<Longrightarrow> walk_call a x"
  by (auto simp: walk_call_def intro: same_tree_trans)

lemma loop_inv_trans:
  assumes "loop_inv w (Inr w') cs" and "loop_inv w' r cs'"
  shows "loop_inv w r (cs @ cs')"
proof -
  from assms(1) have st: "same_tree (disk w) (disk w')" by (simp add: loop_inv_def)
  have wc: "list_all (walk_call (disk w)) cs'"
    using assms(2) st by (auto simp: loop_inv_def list_all_iff intro: walk_call_same_tree)
  have bl: "list_all (\<lambda>x. call_error x = None \<or> is_listing x) (butlast (cs @ cs'))"
    using assms by (cases "cs' = []") (auto simp: loop_inv_def butlast_append list_all_iff dest: in_set_butlastD)
  show ?thesis
    using assms st wc bl
    by (cases r) (auto simp: loop_inv_def moved_lines_append intro: same_tree_trans split: prod.splits)
qed

lemma loop_inv_loop_body: "\<exists>cs. loop_inv w (loop_body root file w) cs"
proof (cases "matches w file")
  case False
  then show ?thesis using loop_inv_refl [of w] by (auto simp: loop_body_def)
next
  case True
  let ?s = "os_path_join root file" and ?d = "os_path_join (destination_dir w) file"
  have "loop_inv w (loop_body root file w) [(Move ?s ?d, disk w)]"
    using True
    by (auto simp: loop_body_def Let_def loop_inv_def walk_call_def dest: shutil_move_same_tree
        split: sum.splits)
  then show ?thesis ..
qed

lemma loop_inv_for_files: "\<exists>cs. loop_inv w (for_files root files w) cs"
proof (induction files arbitrary: w)
  case Nil
  then show ?case using loop_inv_refl [of w] by auto
next
  case (Cons f fs)
  obtain cs where b: "loop_inv w (loop_body root f w) cs"
    using loop_inv_loop_body by blast
  show ?case
  proof (cases "loop_body root f w")
    case (Inl ew)
    then show ?thesis using b by auto
  next
    case (Inr w')
    obtain cs' where "loop_inv w' (for_files root fs w') cs'" using Cons.IH by blast
    then have "loop_inv w (for_files root fs w') (cs @ cs')"
      using b Inr loop_inv_trans by simp
    then show ?thesis using Inr by auto
  qed
qed

lemma loop_inv_scandir:
  "loop_inv w (Inr (w\<lparr>calls := calls w @ [(Scandir path, disk w)]\<rparr>)) [(Scandir path, disk w)]"
  by (simp add: loop_inv_def walk_call_def)

lemma loop_inv_os_walk_loop: "\<exists>cs. loop_inv w (os_walk_loop stack w) cs"
proof (induction stack w rule: os_walk_loop.induct)
  case (1 w)
  then show ?case using loop_inv_refl [of w] by auto
next
  case (2 path stack w)
  define w1 where "w1 = w\<lparr>calls := calls w @ [(Scandir path, disk w)]\<rparr>"
  have s1: "loop_inv w (Inr w1) [(Scandir path, disk w)]"
    unfolding w1_def by (rule loop_inv_scandir)
  show ?case
  proof (cases "os_scandir path (disk w)")
    case (Inl e)
    obtain cs where "loop_inv w1 (os_walk_loop stack w1) cs"
      using 2(1) [OF w1_def Inl] by blast
    then have "loop_inv w (os_walk_loop stack w1) ([(Scandir path, disk w)] @ cs)"
      using s1 loop_inv_trans by blast
    then show ?thesis using Inl by (auto simp: w1_def [symmetric])
  next
    case (Inr x)
    obtain ds nondirs where x: "x = (ds, nondirs)" by (cases x)
    obtain cs where f: "loop_inv w1 (for_files path nondirs w1) cs"
      using loop_inv_for_files by blast
    show ?thesis
    proof (cases "for_files path nondirs w1")
      case (Inl ew)
      then have "loop_inv w (Inl ew) ([(Scandir path, disk w)] @ cs)"
        using s1 f loop_inv_trans by metis
      then show ?thesis using Inr x Inl by (auto simp: w1_def [symmetric])
    next
      case ff: (Inr w')
      obtain cs' where "loop_inv w' (os_walk_loop (map (os_path_join path) ds @ stack) w') cs'"
        using 2(2) [OF w1_def Inr x [symmetric] ff] by blast
      then have "loop_inv w (os_walk_loop (map (os_path_join path) ds @ stack) w')
                   ([(Scandir path, disk w)] @ cs @ cs')"
        using s1 f ff loop_inv_trans by metis
      then show ?thesis using Inr x ff by (auto simp: w1_def [symmetric])
    qed
  qed
qed

lemma loop_inv_new_calls: "loop_inv w r cs \<Longrightarrow> new_calls w r = cs"
  by (simp add: loop_inv_def new_calls_def)

subsection \<open>Path names and their keys\<close>

lemma resolve_key_of:
  "resolve fs p = (if p = [] then None else Some (key_of (if prefix ''/'' p then [] else cwd fs) p))"
  by (simp add: resolve_def key_of_def)

lemma key_of_Nil [simp]: "key_of k [] = k"
  by (simp add: key_of_def walk_comp_def)

lemma key_of_sep: "key_of k (a @ CHR ''/'' # b) = key_of (key_of k a) b"
  by (simp add: key_of_def split_sep_append_sep)

lemma key_of_sep_Cons [simp]: "key_of k (CHR ''/'' # b) = key_of k b"
  using key_of_sep [of k "[]" b] by simp

lemma key_of_nosep: "CHR ''/'' \<notin> set t \<Longrightarrow> key_of k t = walk_comp k t"
  by (simp add: key_of_def split_sep_nosep)

lemma key_of_all_sep [simp]: "all_sep s \<Longrightarrow> key_of k s = k"
  by (induction s) (auto simp: all_sep_def)

lemma key_of_all_sep_append: "all_sep s \<Longrightarrow> key_of k (s @ r) = key_of k r"
  by (induction s) (auto simp: all_sep_def)

lemma key_of_append_all_sep: "all_sep s \<Longrightarrow> key_of k (a @ s) = key_of k a"
proof (cases s)
  case Nil
  then show ?thesis by simp
next
  case (Cons c s')
  assume "all_sep s"
  with Cons have "c = CHR ''/''" "all_sep s'" by (auto simp: all_sep_def)
  then show ?thesis using Cons by (simp add: key_of_sep)
qed

lemma key_of_name:
  assumes "all_sep s" "all_sep s'" "CHR ''/'' \<notin> set t" "s \<noteq> [] \<or> h = [] \<or> suffix ''/'' h"
  shows "key_of k (h @ s @ t @ s') = walk_comp (key_of k h) t"
proof -
  have t: "key_of k' (t @ s') = walk_comp k' t" for k'
    using key_of_append_all_sep [OF assms(2), of k' t] assms(3) by (simp add: key_of_nosep)
  show ?thesis
  proof (cases s)
    case (Cons c r)
    with assms(1) have "c = CHR ''/''" "all_sep r" by (auto simp: all_sep_def)
    then show ?thesis
      using Cons t key_of_sep [of k h "r @ t @ s'"] by (simp add: key_of_all_sep_append)
  next
    case Nil
    show ?thesis
    proof (cases "h = []")
      case True
      then show ?thesis using Nil t by simp
    next
      case False
      with Nil assms(4) obtain h' where h: "h = h' @ ''/''" by (auto simp: suffix_def)
      then show ?thesis
        using Nil t key_of_sep [of k h' "t @ s'"] key_of_sep [of k h' "[]"] by simp
    qed
  qed
qed

lemma rstrip_sep_decomp: "\<exists>s. all_sep s \<and> p = rstrip_sep p @ s"
proof -
  have "rev p = takeWhile (\<lambda>c. c = CHR ''/'') (rev p) @ dropWhile (\<lambda>c. c = CHR ''/'') (rev p)"
    by simp
  then have "p = rev (dropWhile (\<lambda>c. c = CHR ''/'') (rev p)) @ rev (takeWhile (\<lambda>c. c = CHR ''/'') (rev p))"
    by (metis rev_append rev_rev_ident)
  moreover have "all_sep (rev (takeWhile (\<lambda>c. c = CHR ''/'') (rev p)))"
    by (auto simp: all_sep_def dest: set_takeWhileD)
  ultimately show ?thesis unfolding rstrip_sep_def by blast
qed

lemma rstrip_sep_shorter:
  assumes "suffix ''/'' p"
  shows "rstrip_sep p \<noteq> p"
proof -
  from assms obtain q where "p = q @ ''/''" by (auto simp: suffix_def)
  then have "length (rstrip_sep p) \<le> length q"
    using length_rstrip_sep [of q] by (simp add: rstrip_sep_def)
  then show ?thesis using \<open>p = q @ ''/''\<close> by auto
qed

lemma os_path_split_decomp:
  assumes "os_path_split p = (h, t)"
  shows "CHR ''/'' \<notin> set t \<and>
         (\<exists>s. all_sep s \<and> p = h @ s @ t \<and> (s \<noteq> [] \<or> h = [] \<or> suffix ''/'' h))"
proof -
  define h0 where "h0 = rev (dropWhile (\<lambda>c. c \<noteq> CHR ''/'') (rev p))"
  define t0 where "t0 = rev (takeWhile (\<lambda>c. c \<noteq> CHR ''/'') (rev p))"
  have "rev p = takeWhile (\<lambda>c. c \<noteq> CHR ''/'') (rev p) @ dropWhile (\<lambda>c. c \<noteq> CHR ''/'') (rev p)"
    by simp
  then have p: "p = h0 @ t0" unfolding h0_def t0_def by (metis rev_append rev_rev_ident)
  have t0: "CHR ''/'' \<notin> set t0" unfolding t0_def by (auto dest: set_takeWhileD)
  have h0: "h0 = [] \<or> suffix ''/'' h0"
  proof (cases "dropWhile (\<lambda>c. c \<noteq> CHR ''/'') (rev p)")
    case Nil
    then show ?thesis by (simp add: h0_def)
  next
    case (Cons c r)
    then have "c = CHR ''/''" using hd_dropWhile [of "\<lambda>c. c \<noteq> CHR ''/''" "rev p"] by auto
    then show ?thesis using Cons by (simp add: h0_def suffix_def)
  qed
  from assms have t: "t = t0"
    and h: "h = (if h0 \<noteq> [] \<and> \<not> all_sep h0 then rstrip_sep h0 else h0)"
    unfolding os_path_split_def Let_def h0_def t0_def by auto
  show ?thesis
  proof (cases "h0 \<noteq> [] \<and> \<not> all_sep h0")
    case True
    obtain s where s: "all_sep s" "h0 = rstrip_sep h0 @ s" using rstrip_sep_decomp by blast
    have "s \<noteq> []" using rstrip_sep_shorter [of h0] h0 True s by auto
    then show ?thesis using True h t t0 p s by (metis append.assoc)
  next
    case False
    then have "h = h0" using h by auto
    moreover have "all_sep []" by (simp add: all_sep_def)
    ultimately show ?thesis using t t0 p h0 by (metis append_Nil)
  qed
qed

lemma makedirs_split_decomp:
  assumes "makedirs_split name = (head, tail)"
  shows "CHR ''/'' \<notin> set tail \<and>
         (\<exists>s s'. all_sep s \<and> all_sep s' \<and> name = head @ s @ tail @ s' \<and>
                  (s \<noteq> [] \<or> head = [] \<or> suffix ''/'' head))"
proof (cases "snd (os_path_split name) = []")
  case False
  with assms have "os_path_split name = (head, tail)" by (simp add: makedirs_split_def)
  from os_path_split_decomp [OF this] have "CHR ''/'' \<notin> set tail"
    and "\<exists>s. all_sep s \<and> name = head @ s @ tail @ [] \<and> (s \<noteq> [] \<or> head = [] \<or> suffix ''/'' head)"
    by auto
  moreover have "all_sep []" by (simp add: all_sep_def)
  ultimately show ?thesis by blast
next
  case True
  obtain h0 where 0: "os_path_split name = (h0, [])" using True by (cases "os_path_split name") auto
  with assms True have 1: "os_path_split h0 = (head, tail)" by (simp add: makedirs_split_def)
  from os_path_split_decomp [OF 0] obtain s' where s': "all_sep s'" "name = h0 @ s'" by auto
  from os_path_split_decomp [OF 1] obtain s where "CHR ''/'' \<notin> set tail" "all_sep s"
    "h0 = head @ s @ tail" "s \<noteq> [] \<or> head = [] \<or> suffix ''/'' head" by auto
  then show ?thesis using s' by auto
qed

lemma resolve_makedirs_split:
  assumes "makedirs_split name = (head, tail)" and "head \<noteq> []"
  shows "resolve fs name = map_option (\<lambda>k. walk_comp k tail) (resolve fs head)"
proof -
  from makedirs_split_decomp [OF assms(1)] obtain s s' where
    d: "CHR ''/'' \<notin> set tail" "all_sep s" "all_sep s'" "name = head @ s @ tail @ s'"
       "s \<noteq> [] \<or> head = [] \<or> suffix ''/'' head" by blast
  have "prefix ''/'' name = prefix ''/'' head"
    using d(4) assms(2) by (cases head) auto
  moreover have "name \<noteq> []" using d(4) assms(2) by simp
  ultimately show ?thesis
    using assms(2) key_of_name [OF d(2,3,1,5)] d(4) by (simp add: resolve_key_of)
qed

subsection \<open>Creating the destination directory\<close>

declare os_makedirs.simps [simp del]

lemma made_simps [simp]: "made (Inl (e, fs)) = fs" "made (Inr fs) = fs"
  by (simp_all add: made_def)

lemma grows_refl [simp]: "grows fs fs"
  by (simp add: grows_def)

lemma grows_trans: "grows a b \<Longrightarrow> grows b c \<Longrightarrow> grows a c"
  by (auto simp: grows_def)

lemma grows_resolve: "grows fs fs' \<Longrightarrow> resolve fs' p = resolve fs p"
  by (simp add: grows_def resolve_def)

lemma grows_isdir: "grows fs fs' \<Longrightarrow> isdir k fs \<Longrightarrow> isdir k fs'"
  by (auto simp: grows_def isdir_def)

lemma grows_isfile: "grows fs fs' \<Longrightarrow> isfile k fs' \<Longrightarrow> isfile k fs"
  by (auto simp: grows_def isdir_def isfile_def)

lemma grows_exists: "grows fs fs' \<Longrightarrow> os_path_exists p fs \<Longrightarrow> os_path_exists p fs'"
  by (auto simp: os_path_exists_def grows_resolve grows_def isdir_def isfile_def split: option.splits)

lemma grows_os_path_isdir: "grows fs fs' \<Longrightarrow> os_path_isdir p fs \<Longrightarrow> os_path_isdir p fs'"
  by (auto simp: os_path_isdir_def grows_resolve grows_isdir split: option.splits)

lemma os_mkdir_grows: "os_mkdir name fs = Inr fs' \<Longrightarrow> grows fs fs'"
  by (auto simp: os_mkdir_def grows_def isdir_def split: option.splits if_splits)

lemma makedirs_leaf_grows: "grows fs (made (makedirs_leaf name ok fs))"
  by (auto simp: makedirs_leaf_def dest: os_mkdir_grows split: sum.splits)

lemma os_makedirs_grows: "grows fs (made (os_makedirs name ok fs))"
proof (induction name ok fs rule: os_makedirs.induct)
  case (1 name ok fs)
  obtain head tail where s: "makedirs_split name = (head, tail)" by (cases "makedirs_split name")
  show ?case
  proof (cases "head \<noteq> [] \<and> tail \<noteq> [] \<and> \<not> os_path_exists head fs")
    case False
    then show ?thesis
      using s makedirs_leaf_grows [of fs name ok] by (subst os_makedirs.simps) auto
  next
    case True
    have ih: "grows fs (made (os_makedirs head ok fs))"
      using 1 [OF s [symmetric]] True by simp
    have l: "grows (made (os_makedirs head ok fs)) (made (makedirs_leaf name ok (made (os_makedirs head ok fs))))"
      by (rule makedirs_leaf_grows)
    show ?thesis
      using s True ih grows_trans [OF ih l]
      by (subst os_makedirs.simps) (auto split: sum.splits prod.splits os_error.splits)
  qed
qed

lemma makedirs_leaf_isdir: "makedirs_leaf name True fs = Inr fs' \<Longrightarrow> os_path_isdir name fs'"
  by (auto simp: makedirs_leaf_def os_mkdir_def os_path_isdir_def resolve_def isdir_def
      split: sum.splits option.splits if_splits)

lemma makedirs_leaf_exists:
  "makedirs_leaf name True fs = Inl (FileExistsError p, fs') \<Longrightarrow> os_path_exists name fs"
  by (auto simp: makedirs_leaf_def os_mkdir_def os_path_exists_def
      split: sum.splits option.splits if_splits)

lemma makedirs_leaf_isfile:
  "makedirs_leaf name True fs = Inl (FileExistsError p, fs') \<Longrightarrow>
     \<exists>k. resolve fs name = Some k \<and> isfile k fs"
  by (auto simp: makedirs_leaf_def os_mkdir_def os_path_isdir_def
      split: sum.splits option.splits if_splits)

lemma os_makedirs_FileExistsError:
  assumes "os_makedirs name True fs = Inl (FileExistsError p, fs')"
  shows "os_path_exists name fs"
proof -
  obtain head tail where s: "makedirs_split name = (head, tail)" by (cases "makedirs_split name")
  show ?thesis
  proof (cases "head \<noteq> [] \<and> tail \<noteq> [] \<and> \<not> os_path_exists head fs")
    case False
    then have "makedirs_leaf name True fs = Inl (FileExistsError p, fs')"
      using assms s by (subst (asm) os_makedirs.simps) auto
    then show ?thesis by (rule makedirs_leaf_exists)
  next
    case True
    define fs1 where "fs1 = made (os_makedirs head True fs)"
    have g: "grows fs fs1" unfolding fs1_def by (rule os_makedirs_grows)
    have "makedirs_leaf name True fs1 = Inl (FileExistsError p, fs')"
      using assms s True unfolding fs1_def
      by (subst (asm) os_makedirs.simps) (auto split: sum.splits prod.splits os_error.splits if_splits)
    then obtain k where "resolve fs1 name = Some k" "isfile k fs1"
      using makedirs_leaf_isfile by blast
    then show ?thesis
      using g by (auto simp: os_path_exists_def grows_resolve dest: grows_isfile)
  qed
qed

lemma os_makedirs_isdir:
  "os_makedirs name True fs = Inr fs' \<Longrightarrow> os_path_isdir name fs'"
proof (induction name "True" fs arbitrary: fs' rule: os_makedirs.induct)
  case (1 name fs)
  obtain head tail where s: "makedirs_split name = (head, tail)" by (cases "makedirs_split name")
  show ?case
  proof (cases "head \<noteq> [] \<and> tail \<noteq> [] \<and> \<not> os_path_exists head fs")
    case False
    then have "makedirs_leaf name True fs = Inr fs'"
      using 1(2) s by (subst (asm) os_makedirs.simps) auto
    then show ?thesis by (rule makedirs_leaf_isdir)
  next
    case True
    show ?thesis
    proof (cases "os_makedirs head True fs")
      case (Inl ef)
      obtain e fs1 where ef: "ef = (e, fs1)" by (cases ef)
      have "\<forall>p. e \<noteq> FileExistsError p"
        using os_makedirs_FileExistsError [of head fs _ fs1] Inl ef True by auto
      then have False
        using 1(2) s True Inl ef
        by (subst (asm) os_makedirs.simps) (auto split: os_error.splits)
      then show ?thesis ..
    next
      case (Inr fs1)
      have ih: "os_path_isdir head fs1" using 1(1) [OF s [symmetric] _ Inr] True by simp
      show ?thesis
      proof (cases "tail = ''.''")
        case dot: True
        then have "fs' = fs1"
          using 1(2) s True Inr by (subst (asm) os_makedirs.simps) auto
        moreover have "resolve fs1 name = resolve fs1 head"
          using resolve_makedirs_split [OF s, of fs1] True dot
          by (cases "resolve fs1 head") (auto simp: walk_comp_def)
        ultimately show ?thesis using ih by (simp add: os_path_isdir_def)
      next
        case False
        then have "makedirs_leaf name True fs1 = Inr fs'"
          using 1(2) s True Inr by (subst (asm) os_makedirs.simps) auto
        then show ?thesis by (rule makedirs_leaf_isdir)
      qed
    qed
  qed
qed

lemma makedirs_leaf_again: "os_path_isdir name fs \<Longrightarrow> makedirs_leaf name True fs = Inr fs"
  by (auto simp: makedirs_leaf_def os_mkdir_def os_path_isdir_def split: option.splits sum.splits)

lemma os_makedirs_head_exists:
  assumes "os_makedirs name True fs = Inr fs'" and "makedirs_split name = (head, tail)"
    and "head \<noteq> []" and "tail \<noteq> []"
  shows "os_path_exists head fs'"
proof (cases "os_path_exists head fs")
  case True
  then show ?thesis
    using os_makedirs_grows [of fs name True] assms(1) by (auto dest: grows_exists)
next
  case False
  show ?thesis
  proof (cases "os_makedirs head True fs")
    case (Inl ef)
    obtain e fs1 where ef: "ef = (e, fs1)" by (cases ef)
    have "\<forall>p. e \<noteq> FileExistsError p"
      using os_makedirs_FileExistsError [of head fs _ fs1] Inl ef False by auto
    then have False
      using assms False Inl ef
      by (subst (asm) os_makedirs.simps) (auto split: os_error.splits)
    then show ?thesis ..
  next
    case (Inr fs1)
    have d: "os_path_isdir head fs1" using os_makedirs_isdir [OF Inr] .
    have "grows fs1 fs'"
      using assms False Inr makedirs_leaf_grows [of fs1 name True]
      by (subst (asm) os_makedirs.simps) (auto split: if_splits)
    then have "os_path_isdir head fs'" using d by (rule grows_os_path_isdir)
    then show ?thesis by (auto simp: os_path_isdir_def os_path_exists_def split: option.splits)
  qed
qed

lemma os_makedirs_again:
  assumes "os_makedirs name True fs = Inr fs'"
  shows "os_makedirs name True fs' = Inr fs'"
proof -
  obtain head tail where s: "makedirs_split name = (head, tail)" by (cases "makedirs_split name")
  have "\<not> (head \<noteq> [] \<and> tail \<noteq> [] \<and> \<not> os_path_exists head fs')"
    using os_makedirs_head_exists [OF assms s] by auto
  then have "os_makedirs name True fs' = makedirs_leaf name True fs'"
    using s by (subst os_makedirs.simps) auto
  then show ?thesis
    using makedirs_leaf_again [OF os_makedirs_isdir [OF assms]] by simp
qed

subsection \<open>The history of the script\<close>

lemma script_makedirs_fails:
  assumes "os_makedirs (os_path_expanduser home ''~/Desktop/Filtered_Files'') True (disk w0) = Inl (e, fs')"
  shows "script home w0 =
     Inl (e, w0\<lparr>source_dir := ''path/to/your/subdirectory'',
                destination_dir := os_path_expanduser home ''~/Desktop/Filtered_Files'',
                disk := fs',
                calls := calls w0 @ [(Makedirs (os_path_expanduser home ''~/Desktop/Filtered_Files''), disk w0)]\<rparr>)"
  using assms by (simp add: script_def Let_def)

lemma script_makedirs_ok:
  assumes "os_makedirs (os_path_expanduser home ''~/Desktop/Filtered_Files'') True (disk w0) = Inr fs'"
  shows "script home w0 =
     (case move_matching (loop_start home w0 fs') of
        Inl ew \<Rightarrow> Inl ew
      | Inr w7 \<Rightarrow> Inr (w7\<lparr>console := console w7 @ [''Transfer complete.'']\<rparr>))"
proof -
  have "w0\<lparr>source_dir := ''path/to/your/subdirectory'',
          destination_dir := os_path_expanduser home ''~/Desktop/Filtered_Files'',
          calls := calls w0 @ [(Makedirs (os_path_expanduser home ''~/Desktop/Filtered_Files''), disk w0)],
          disk := fs',
          file_extensions := {''.mp4'', ''.avi'', ''.mov'', ''.mkv'', ''.flv'', ''.wmv''},
          search_keyword := ''play''\<rparr> = loop_start home w0 fs'"
    by (simp add: loop_start_def)
  then show ?thesis using assms by (simp add: script_def Let_def)
qed

lemma loop_inv_move_matching: "\<exists>cs. loop_inv w (move_matching w) cs"
  unfolding move_matching_def by (rule loop_inv_os_walk_loop)

lemma same_tree_os_path_isdir: "same_tree fs fs' \<Longrightarrow> os_path_isdir p fs' = os_path_isdir p fs"
  by (simp add: same_tree_def os_path_isdir_def resolve_def isdir_def)

lemma script_inv_holds: "\<exists>cs. script_inv home w0 cs"
proof -
  define D where "D = os_path_expanduser home ''~/Desktop/Filtered_Files''"
  show ?thesis
  proof (cases "os_makedirs D True (disk w0)")
    case (Inl ef)
    obtain e fs' where ef: "ef = (e, fs')" by (cases ef)
    have "script_inv home w0 [(Makedirs D, disk w0)]"
      using script_makedirs_fails [of home w0 e fs'] Inl ef
      by (simp add: script_inv_def D_def [symmetric])
    then show ?thesis ..
  next
    case (Inr fs')
    define w6 where "w6 = loop_start home w0 fs'"
    have d: "os_path_isdir D fs'" using os_makedirs_isdir [OF Inr] .
    obtain cs where cs: "loop_inv w6 (move_matching w6) cs"
      using loop_inv_move_matching by blast
    have w6: "calls w6 = calls w0 @ [(Makedirs D, disk w0)]" "console w6 = console w0" "disk w6 = fs'"
      by (simp_all add: w6_def loop_start_def D_def)
    have s: "script home w0 =
      (case move_matching w6 of
         Inl ew \<Rightarrow> Inl ew
       | Inr w7 \<Rightarrow> Inr (w7\<lparr>console := console w7 @ [''Transfer complete.'']\<rparr>))"
      using script_makedirs_ok [of home w0 fs'] Inr by (simp add: D_def w6_def)
    have tl: "list_all (\<lambda>x. (\<forall>p. fst x \<noteq> Makedirs p) \<and> os_path_isdir D (snd x)) cs"
      using cs d w6 by (auto simp: loop_inv_def list_all_iff walk_call_def same_tree_os_path_isdir)
    have bl: "list_all (\<lambda>x. call_error x = None \<or> is_listing x) (butlast ((Makedirs D, disk w0) # cs))"
      using cs Inr by (auto simp: loop_inv_def)
    have "script_inv home w0 ((Makedirs D, disk w0) # cs)"
    proof (cases "move_matching w6")
      case (Inl ew)
      obtain e w' where ew: "ew = (e, w')" by (cases ew)
      have "cs \<noteq> []" using cs Inl ew by (simp add: loop_inv_def)
      then have "\<forall>p. fst (last cs) \<noteq> Makedirs p"
        using cs last_in_set [of cs] by (auto simp: loop_inv_def walk_call_def list_all_iff)
      then have "left_by (last cs) = snd (last cs)"
        by (cases "last cs" rule: left_by.cases) auto
      then show ?thesis
        using cs Inl ew s w6 tl bl Inr unfolding script_inv_def D_def [symmetric] Let_def
        by (auto simp: loop_inv_def)
    next
      case (Inr w7)
      then show ?thesis
        using cs s w6 tl bl \<open>os_makedirs D True (disk w0) = Inr fs'\<close>
        unfolding script_inv_def D_def [symmetric] Let_def
        by (auto simp: loop_inv_def)
    qed
    then show ?thesis ..
  qed
qed

lemma script_inv_new_calls: "script_inv home w0 cs \<Longrightarrow> new_calls w0 (script home w0) = cs"
  by (simp add: script_inv_def new_calls_def Let_def)

lemma script_inv_new: "script_inv home w0 (new_calls w0 (script home w0))"
  using script_inv_holds [of home w0] script_inv_new_calls by auto

subsection \<open>The claims about whole runs\<close>

text \<open>
  Claim C7. Creating the destination directory is idempotent: when
  \<^verbatim>\<open>os.makedirs(destination, exist_ok=True)\<close> has succeeded, so that the directory
  exists, performing it again raises no error and returns the file system as it is, the
  same as after performing it once; the destination is a directory; no directory is listed
  twice if none was before; and no file is touched.
\<close>

theorem makedirs_is_idempotent:
  assumes "os_makedirs destination True fs = Inr fs'"
  shows "os_makedirs destination True fs' = Inr fs' \<and>
         os_path_isdir destination fs' \<and>
         (distinct (dir_keys fs) \<longrightarrow> distinct (dir_keys fs')) \<and>
         file_data fs' = file_data fs"
  using os_makedirs_again [OF assms] os_makedirs_isdir [OF assms]
    os_makedirs_grows [of fs destination True] assms
  by (simp add: grows_def)

text \<open>
  Claim C3. The destination directory exists before any move is attempted. In every run
  of the script the first call is the creation of the destination directory; if it
  fails, no other call follows; and every later call, a listing or a move, is made on a
  file system in which the destination is a directory.
\<close>

theorem destination_exists_before_any_move:
  "calls (final (script home w0)) = calls w0 @ new_calls w0 (script home w0) \<and>
   new_calls w0 (script home w0) \<noteq> [] \<and>
   hd (new_calls w0 (script home w0)) =
     (Makedirs (os_path_expanduser home ''~/Desktop/Filtered_Files''), disk w0) \<and>
   (call_error (hd (new_calls w0 (script home w0))) \<noteq> None \<longrightarrow>
      tl (new_calls w0 (script home w0)) = []) \<and>
   (\<forall>x \<in> set (tl (new_calls w0 (script home w0))).
      (\<forall>p. fst x \<noteq> Makedirs p) \<and>
      os_path_isdir (os_path_expanduser home ''~/Desktop/Filtered_Files'') (snd x))"
  using script_inv_new [of home w0] by (simp add: script_inv_def Let_def list_all_iff)


lemma os_walk_loop_skip:
  "os_scandir path (disk w) = Inl e \<Longrightarrow>
     os_walk_loop (path # stack) w =
     os_walk_loop stack (w\<lparr>calls := calls w @ [(Scandir path, disk w)]\<rparr>)"
  by (simp add: Let_def)

lemma script_extensions:
  "\<forall>ext \<in> {''.mp4'', ''.avi'', ''.mov'', ''.mkv'', ''.flv'', ''.wmv''}. prefix ''.'' ext \<and> str_lower ext = ext"
  by (simp add: str_lower_def lower_char_def)

lemma expanduser_home:
  "os_path_expanduser (Some h) ''~/Desktop/Filtered_Files'' = rstrip_sep h @ ''/Desktop/Filtered_Files''"
  by (simp add: os_path_expanduser_def)

lemma script_vars:
  "source_dir (final (script home w0)) = ''path/to/your/subdirectory'' \<and>
   destination_dir (final (script home w0)) = os_path_expanduser home ''~/Desktop/Filtered_Files'' \<and>
   (call_error (Makedirs (os_path_expanduser home ''~/Desktop/Filtered_Files''), disk w0) = None \<longrightarrow>
      search_keyword (final (script home w0)) = ''play'' \<and>
      file_extensions (final (script home w0)) =
        {''.mp4'', ''.avi'', ''.mov'', ''.mkv'', ''.flv'', ''.wmv''})"
proof -
  define D where "D = os_path_expanduser home ''~/Desktop/Filtered_Files''"
  show ?thesis
  proof (cases "os_makedirs D True (disk w0)")
    case (Inl ef)
    obtain e fs' where ef: "ef = (e, fs')" by (cases ef)
    have "script home w0 =
       Inl (e, w0\<lparr>source_dir := ''path/to/your/subdirectory'', destination_dir := D, disk := fs',
                  calls := calls w0 @ [(Makedirs D, disk w0)]\<rparr>)"
      using script_makedirs_fails [of home w0 e fs'] Inl ef by (simp only: D_def)
    then show ?thesis using Inl ef by (simp add: D_def [symmetric])
  next
    case (Inr fs')
    define w6 where "w6 = loop_start home w0 fs'"
    have v: "same_vars w6 (final (move_matching w6))"
      unfolding move_matching_def by (rule os_walk_loop_same_vars)
    have s: "script home w0 = (case move_matching w6 of Inl ew \<Rightarrow> Inl ew
         | Inr w7 \<Rightarrow> Inr (w7\<lparr>console := console w7 @ [''Transfer complete.'']\<rparr>))"
      using script_makedirs_ok [of home w0 fs'] Inr by (simp only: D_def w6_def)
    have "same_vars w6 (final (script home w0))"
      using v unfolding s by (cases "move_matching w6") (auto simp: same_vars_def)
    moreover have "source_dir w6 = ''path/to/your/subdirectory''" "destination_dir w6 = D"
      "search_keyword w6 = ''play''"
      "file_extensions w6 = {''.mp4'', ''.avi'', ''.mov'', ''.mkv'', ''.flv'', ''.wmv''}"
      by (simp_all add: w6_def loop_start_def D_def)
    ultimately show ?thesis
      unfolding D_def [symmetric] by (simp add: same_vars_def)
  qed
qed

text \<open>
  Claim C8. Every extension of the script begins with a dot and is lower-case, and the
  four configuration values are constants: the loops never assign them (whatever they
  are, they are the same when the traversal ends, completed or not), the source and the
  destination directory have their values in every run, the destination being the home
  directory (without trailing separators) followed by \<^verbatim>\<open>/Desktop/Filtered_Files\<close>, and,
  when the creation of the destination directory does not fail, the keyword and the
  extensions have their values assigned and keep them.
\<close>

theorem configuration_is_constant:
  "same_vars w (final (move_matching w)) \<and>
   source_dir (final (script home w0)) = ''path/to/your/subdirectory'' \<and>
   destination_dir (final (script home w0)) = os_path_expanduser home ''~/Desktop/Filtered_Files'' \<and>
   os_path_expanduser (Some h) ''~/Desktop/Filtered_Files'' = rstrip_sep h @ ''/Desktop/Filtered_Files'' \<and>
   (call_error (Makedirs (os_path_expanduser home ''~/Desktop/Filtered_Files''), disk w0) = None \<longrightarrow>
      search_keyword (final (script home w0)) = ''play'' \<and>
      file_extensions (final (script home w0)) =
        {''.mp4'', ''.avi'', ''.mov'', ''.mkv'', ''.flv'', ''.wmv''} \<and>
      (\<forall>ext \<in> file_extensions (final (script home w0)).
         prefix ''.'' ext \<and> str_lower ext = ext))"
proof -
  have 1: "same_vars w (final (move_matching w))"
    unfolding move_matching_def by (rule os_walk_loop_same_vars)
  have 5: "\<forall>ext \<in> file_extensions (final (script home w0)). prefix ''.'' ext \<and> str_lower ext = ext"
    if "file_extensions (final (script home w0)) = {''.mp4'', ''.avi'', ''.mov'', ''.mkv'', ''.flv'', ''.wmv''}"
    unfolding that by (rule script_extensions)
  show ?thesis
    using 1 expanduser_home [of h] script_vars [of home w0] 5 by blast
qed


text \<open>
  Claim C9. Errors of the listing never end the run. A directory on the stack of the
  walk that cannot be listed is skipped: the traversal goes on with the rest of the
  stack. If the source directory cannot be listed (it does not exist, say) once the
  destination directory has been created, the script moves nothing, prints
  \<^verbatim>\<open>Transfer complete.\<close> and completes. And the call that ends a run with an error is
  never a listing.
\<close>

theorem listing_errors_are_skipped:
  "(os_scandir path (disk w) = Inl e \<longrightarrow>
      os_walk_loop (path # stack) w =
      os_walk_loop stack (w\<lparr>calls := calls w @ [(Scandir path, disk w)]\<rparr>)) \<and>
   (os_makedirs (os_path_expanduser home ''~/Desktop/Filtered_Files'') True (disk w0) = Inr fs' \<and>
    os_scandir ''path/to/your/subdirectory'' fs' = Inl e' \<longrightarrow>
      script home w0 =
        Inr ((loop_start home w0 fs')
              \<lparr>calls := calls (loop_start home w0 fs') @ [(Scandir ''path/to/your/subdirectory'', fs')],
               console := console w0 @ [''Transfer complete.'']\<rparr>)) \<and>
   (isl (script home w0) \<longrightarrow> \<not> is_listing (last (calls (final (script home w0)))))"
proof (intro conjI impI)
  assume "os_scandir path (disk w) = Inl e"
  then show "os_walk_loop (path # stack) w =
      os_walk_loop stack (w\<lparr>calls := calls w @ [(Scandir path, disk w)]\<rparr>)"
    by (rule os_walk_loop_skip)
next
  assume a: "os_makedirs (os_path_expanduser home ''~/Desktop/Filtered_Files'') True (disk w0) = Inr fs' \<and>
    os_scandir ''path/to/your/subdirectory'' fs' = Inl e'"
  then have "move_matching (loop_start home w0 fs') =
      Inr ((loop_start home w0 fs')
            \<lparr>calls := calls (loop_start home w0 fs') @ [(Scandir ''path/to/your/subdirectory'', fs')]\<rparr>)"
    by (simp add: move_matching_def loop_start_def Let_def)
  then show "script home w0 =
        Inr ((loop_start home w0 fs')
              \<lparr>calls := calls (loop_start home w0 fs') @ [(Scandir ''path/to/your/subdirectory'', fs')],
               console := console w0 @ [''Transfer complete.'']\<rparr>)"
    using script_makedirs_ok [of home w0 fs'] a by (simp add: loop_start_def)
next
  assume "isl (script home w0)"
  then show "\<not> is_listing (last (calls (final (script home w0))))"
    using script_inv_new [of home w0]
    by (auto simp: script_inv_def Let_def isl_def)
qed

subsection \<open>Which files are moved, and where to\<close>

lemma os_path_join_valid:
  "valid_name n \<Longrightarrow> os_path_join a n = (if a = [] \<or> suffix ''/'' a then a @ n else a @ ''/'' @ n)"
  by (cases n) (auto simp: os_path_join_def valid_name_def)

lemma rstrip_sep_no_trailing: "s \<noteq> [] \<Longrightarrow> last s \<noteq> CHR ''/'' \<Longrightarrow> rstrip_sep s = s"
  by (cases s rule: rev_cases) (auto simp: rstrip_sep_def)

lemma os_path_basename_append:
  "CHR ''/'' \<notin> set n \<Longrightarrow> a = [] \<or> suffix ''/'' a \<Longrightarrow> os_path_basename (a @ n) = n"
proof -
  assume n: "CHR ''/'' \<notin> set n" and a: "a = [] \<or> suffix ''/'' a"
  have "takeWhile (\<lambda>c. c \<noteq> CHR ''/'') (rev n @ rev a) = rev n"
  proof (cases "a = []")
    case True
    then show ?thesis using n by auto
  next
    case False
    with a obtain b where "a = b @ ''/''" by (auto simp: suffix_def)
    then show ?thesis using n by (auto simp: takeWhile_tail)
  qed
  then show ?thesis by (simp add: os_path_basename_def os_path_split_def Let_def)
qed

lemma shutil_basename_join:
  assumes "valid_name n"
  shows "shutil_basename (os_path_join a n) = n"
proof -
  from assms have n: "n \<noteq> []" "CHR ''/'' \<notin> set n" by (auto simp: valid_name_def)
  then have l: "last n \<noteq> CHR ''/''" using last_in_set [of n] by metis
  show ?thesis
  proof (cases "a = [] \<or> suffix ''/'' a")
    case True
    then have j: "os_path_join a n = a @ n" using assms by (simp add: os_path_join_valid)
    have "rstrip_sep (a @ n) = a @ n" using n l by (intro rstrip_sep_no_trailing) auto
    then show ?thesis using j n True by (simp add: shutil_basename_def os_path_basename_append)
  next
    case False
    then have j: "os_path_join a n = (a @ ''/'') @ n" using assms by (simp add: os_path_join_valid)
    have "rstrip_sep ((a @ ''/'') @ n) = (a @ ''/'') @ n" using n l by (intro rstrip_sep_no_trailing) auto
    moreover have "os_path_basename ((a @ ''/'') @ n) = n"
      using n by (intro os_path_basename_append) (auto simp: suffix_def)
    ultimately show ?thesis unfolding j by (simp add: shutil_basename_def)
  qed
qed

lemma resolve_join_valid:
  assumes "valid_name n"
  shows "\<exists>t. resolve fs (os_path_join a n) = Some t \<and> t \<noteq> [] \<and> last t = n"
proof (cases "a = []")
  case True
  then have "os_path_join a n = n" using assms by (simp add: os_path_join_valid)
  moreover have "resolve fs n = Some (cwd fs @ [n])"
    using assms by (cases n) (auto simp: resolve_def valid_name_def split_sep_nosep walk_comp_def)
  ultimately show ?thesis by simp
next
  case False
  then obtain d where "resolve fs a = Some d" by (auto simp: resolve_def)
  from resolve_join_child [OF this assms] show ?thesis by simp
qed


text \<open>What a successful move of a listed file does.\<close>

lemma shutil_move_effect:
  assumes "valid_name n" and "resolve (disk w) root = Some r" and "\<not> isdir (r @ [n]) (disk w)"
    and "shutil_move (os_path_join root n) (os_path_join (destination_dir w) n) (disk w) = Inr fs'"
  shows "(r @ [n] = target_key w n \<and> isfile (r @ [n]) (disk w) \<and> fs' = disk w) \<or>
         (r @ [n] \<noteq> target_key w n \<and> isfile (r @ [n]) (disk w) \<and> \<not> isdir (target_key w n) (disk w) \<and>
          fs' = (disk w)\<lparr>file_data := (target_key w n, the (map_of (file_data (disk w)) (r @ [n])))
                   # filter (\<lambda>(k, c). k \<noteq> r @ [n] \<and> k \<noteq> target_key w n) (file_data (disk w))\<rparr>)"
proof -
  let ?fs = "disk w" and ?src = "os_path_join root n" and ?dst = "os_path_join (destination_dir w) n"
  have s: "resolve ?fs ?src = Some (r @ [n])" using resolve_join_child [OF assms(2,1)] .
  obtain t where t: "resolve ?fs ?dst = Some t"
    using resolve_join_valid [OF assms(1), of ?fs "destination_dir w"] by blast
  show ?thesis
  proof (cases "isdir t ?fs")
    case False
    then have tk: "target_key w n = t" using t by (simp add: target_key_def)
    from False t have "\<not> os_path_isdir ?dst ?fs" by (simp add: os_path_isdir_def)
    then have "os_rename ?src ?dst ?fs = Inr fs'" using assms(4) by (simp add: shutil_move_def)
    then show ?thesis
      using s t tk False assms(3) by (auto simp: os_rename_def split: if_splits)
  next
    case True
    then have tk: "target_key w n = t @ [n]" using t by (simp add: target_key_def)
    from True t have d: "os_path_isdir ?dst ?fs" by (simp add: os_path_isdir_def)
    have ns: "\<not> samefile ?src ?dst ?fs"
      using s t True assms(3) by (auto simp: samefile_def)
    let ?real = "os_path_join ?dst (shutil_basename ?src)"
    have real: "resolve ?fs ?real = Some (t @ [n])"
      using resolve_join_child [OF t assms(1)] shutil_basename_join [OF assms(1)] by simp
    have "\<not> os_path_exists ?real ?fs \<and> os_rename ?src ?real ?fs = Inr fs'"
      using assms(4) d ns by (auto simp: shutil_move_def Let_def split: if_splits)
    then show ?thesis
      using s real tk assms(3)
      by (auto simp: os_rename_def os_path_exists_def split: if_splits)
  qed
qed

lemma same_tree_sym: "same_tree a b \<Longrightarrow> same_tree b a"
  by (simp add: same_tree_def)













lemma loop_body_disk:
  assumes "matches w1 n" and "loop_body root n w1 = Inr w2"
  shows "shutil_move (os_path_join root n) (os_path_join (destination_dir w1) n) (disk w1) = Inr (disk w2)"
  using assms by (auto simp: loop_body_def Let_def split: sum.splits)
















text \<open>
  Claim C4, as amended. Flattening: for every matched file that a listing reports,
  whatever the directory \<open>root\<close> that holds it, the destination path of its move is the
  destination directory joined with the bare file name, an entry immediately inside the
  destination directory; after the move the file is there, with its content, unless
  the destination directory already holds a directory of that name: then the file is
  inside that directory.
\<close>

theorem flattening:
  assumes "matches w file" and "valid_name file"
    and "resolve (disk w) root = Some r" and "\<not> isdir (r @ [file]) (disk w)"
    and "resolve (disk w) (destination_dir w) = Some d"
    and "loop_body root file w = Inr w'"
  shows "last (calls w') =
           (Move (os_path_join root file) (os_path_join (destination_dir w) file), disk w) \<and>
         resolve (disk w) (os_path_join (destination_dir w) file) = Some (d @ [file]) \<and>
         (\<not> isdir (d @ [file]) (disk w) \<longrightarrow>
            isfile (d @ [file]) (disk w') \<and>
            map_of (file_data (disk w')) (d @ [file]) = map_of (file_data (disk w)) (r @ [file])) \<and>
         (isdir (d @ [file]) (disk w) \<longrightarrow>
            isfile (d @ [file, file]) (disk w') \<and>
            map_of (file_data (disk w')) (d @ [file, file]) = map_of (file_data (disk w)) (r @ [file]))"
proof -
  let ?s = "r @ [file]" and ?t = "target_key w file"
  have c: "last (calls w') =
      (Move (os_path_join root file) (os_path_join (destination_dir w) file), disk w)"
    using assms(1,6) by (auto simp: loop_body_def Let_def split: sum.splits)
  have j: "resolve (disk w) (os_path_join (destination_dir w) file) = Some (d @ [file])"
    using resolve_join_child [OF assms(5,2)] .
  then have t: "?t = (if isdir (d @ [file]) (disk w) then d @ [file, file] else d @ [file])"
    by (simp add: target_key_def)
  note eff = shutil_move_effect [OF assms(2,3,4) loop_body_disk [OF assms(1,6)]]
  have "isfile ?t (disk w') \<and> map_of (file_data (disk w')) ?t = map_of (file_data (disk w)) ?s"
  proof (cases "?s = ?t")
    case True
    with eff show ?thesis by auto
  next
    case False
    with eff have f: "isfile ?s (disk w)" and nd: "\<not> isdir ?t (disk w)"
      and d2: "disk w' = (disk w)\<lparr>file_data := (?t, the (map_of (file_data (disk w)) ?s))
                 # filter (\<lambda>(k, c). k \<noteq> ?s \<and> k \<noteq> ?t) (file_data (disk w))\<rparr>"
      by auto
    from f have "map_of (file_data (disk w)) ?s \<noteq> None"
      unfolding isfile_def map_of_eq_None_iff by simp
    then obtain v where "map_of (file_data (disk w)) ?s = Some v" by blast
    then show ?thesis using nd unfolding d2 by (simp add: isfile_def isdir_def)
  qed
  then show ?thesis using c j t by (cases "isdir (d @ [file]) (disk w)") simp_all
qed

section \<open>The example runs\<close>

text \<open>The runs of the script and of its steps on the example states, evaluated.\<close>

lemmas fs_eval = resolve_def walk_comp_def isdir_def isfile_def os_path_isdir_def os_path_exists_def
  os_mkdir_def makedirs_leaf_def makedirs_split_def os_path_split_def rstrip_sep_def all_sep_def
  os_scandir_def child_names_def valid_name_def os_rename_def shutil_move_def samefile_def
  os_path_join_def shutil_basename_def os_path_basename_def os_path_expanduser_def

lemmas run_eval = script_def move_matching_def Let_def os_makedirs.simps loop_body_def matches_def
  str_lower_def lower_char_def moved_line_def sublist_Cons_right suffix_to_prefix

lemma scenario_makedirs:
  "os_makedirs ''/home/u/Desktop/Filtered_Files'' True scenario_fs = Inr scenario_made"
  by (simp add: os_makedirs.simps fs_eval scenario_fs_def scenario_made_def)

lemma scenario_run: "script (Some ''/home/u'') scenario_world = Inr scenario_end"
  by (simp add: run_eval fs_eval scenario_world_def scenario_fs_def scenario_made_def
      scenario_moved_def scenario_end_def)


lemma scenario_world_simps:
  "calls scenario_world = []" "console scenario_world = []" "disk scenario_world = scenario_fs"
  by (simp_all add: scenario_world_def)

lemma scenario_end_calls:
  "calls scenario_end =
     [(Makedirs ''/home/u/Desktop/Filtered_Files'', scenario_fs),
      (Scandir ''path/to/your/subdirectory'', scenario_made),
      (Scandir ''path/to/your/subdirectory/a'', scenario_made),
      (Move ''path/to/your/subdirectory/a/clip_play.mp4''
            ''/home/u/Desktop/Filtered_Files/clip_play.mp4'', scenario_made),
      (Scandir ''path/to/your/subdirectory/b'', scenario_moved),
      (Scandir ''path/to/your/subdirectory/c'', scenario_moved)]"
  by (simp add: scenario_end_def)

lemma scenario_calls:
  "new_calls scenario_world (Inr scenario_end) = calls scenario_end"
  by (simp add: new_calls_def scenario_world_simps)

lemma expanduser_example:
  "os_path_expanduser (Some ''/home/u'') ''~/Desktop/Filtered_Files'' = ''/home/u/Desktop/Filtered_Files''"
  by (simp add: os_path_expanduser_def rstrip_sep_def)

lemma blocked_world_simps:
  "calls blocked_world = []" "console blocked_world = []" "disk blocked_world = blocked_fs"
  by (simp_all add: blocked_world_def scenario_world_def)

lemma blocked_makedirs:
  "os_makedirs ''/home/u/Desktop/Filtered_Files'' True blocked_fs =
     Inl (NotADirectoryError ''/home/u/Desktop/Filtered_Files'', blocked_fs)"
  by (simp add: os_makedirs.simps fs_eval blocked_fs_def bare_fs_def)

lemma blocked_run:
  "script (Some ''/home/u'') blocked_world =
     Inl (NotADirectoryError ''/home/u/Desktop/Filtered_Files'', blocked_end)"
  by (simp add: script_def Let_def os_path_expanduser_def rstrip_sep_def blocked_world_simps
      blocked_makedirs)
     (simp add: blocked_end_def blocked_world_def scenario_world_def)

lemma blocked_calls:
  "new_calls blocked_world (Inl (e, blocked_end)) =
     [(Makedirs ''/home/u/Desktop/Filtered_Files'', blocked_fs)]"
  by (simp add: new_calls_def blocked_world_simps blocked_end_def)


lemma nested_body:
  "loop_body ''path/to/your/subdirectory/a'' ''clip_play.mp4'' nested_start = Inr nested_step"
  by (simp add: run_eval fs_eval nested_start_def nested_step_def configured_world_def
      scenario_world_def nested_fs_def nested_moved_def scenario_made_def scenario_fs_def)

lemma nested_start_simps:
  "disk nested_start = nested_fs" "destination_dir nested_start = ''/home/u/Desktop/Filtered_Files''"
  by (simp_all add: nested_start_def configured_world_def)

lemma nested_matches: "matches nested_start ''clip_play.mp4''"
  by (simp add: matches_def str_lower_def lower_char_def sublist_Cons_right suffix_to_prefix
      nested_start_def configured_world_def)

theorem makedirs_is_idempotent_witness:
  "os_makedirs ''/home/u/Desktop/Filtered_Files'' True scenario_fs = Inr scenario_made \<and>
   os_makedirs ''/home/u/Desktop/Filtered_Files'' True scenario_made = Inr scenario_made \<and>
   os_path_isdir ''/home/u/Desktop/Filtered_Files'' scenario_made \<and>
   distinct (dir_keys scenario_fs) \<and> distinct (dir_keys scenario_made) \<and>
   file_data scenario_made = file_data scenario_fs"
proof -
  have "distinct (dir_keys scenario_fs)" by (simp add: scenario_fs_def)
  then show ?thesis
    using makedirs_is_idempotent [OF scenario_makedirs] scenario_makedirs by simp
qed

theorem destination_exists_before_any_move_witness:
  "calls (final (script (Some ''/home/u'') scenario_world)) =
     calls scenario_world @ new_calls scenario_world (script (Some ''/home/u'') scenario_world) \<and>
   hd (new_calls scenario_world (script (Some ''/home/u'') scenario_world)) =
     (Makedirs ''/home/u/Desktop/Filtered_Files'', scenario_fs) \<and>
   tl (new_calls scenario_world (script (Some ''/home/u'') scenario_world)) =
     [(Scandir ''path/to/your/subdirectory'', scenario_made),
      (Scandir ''path/to/your/subdirectory/a'', scenario_made),
      (Move ''path/to/your/subdirectory/a/clip_play.mp4''
            ''/home/u/Desktop/Filtered_Files/clip_play.mp4'', scenario_made),
      (Scandir ''path/to/your/subdirectory/b'', scenario_moved),
      (Scandir ''path/to/your/subdirectory/c'', scenario_moved)] \<and>
   os_path_isdir ''/home/u/Desktop/Filtered_Files'' scenario_made \<and>
   os_path_isdir ''/home/u/Desktop/Filtered_Files'' scenario_moved \<and>
   \<not> os_path_isdir ''/home/u/Desktop/Filtered_Files'' scenario_fs \<and>
   call_error (hd (new_calls blocked_world (script (Some ''/home/u'') blocked_world))) =
     Some (NotADirectoryError ''/home/u/Desktop/Filtered_Files'') \<and>
   tl (new_calls blocked_world (script (Some ''/home/u'') blocked_world)) = []"
proof -
  have "\<not> os_path_isdir ''/home/u/Desktop/Filtered_Files'' scenario_fs"
    by (simp add: os_path_isdir_def resolve_def walk_comp_def isdir_def scenario_fs_def)
  then show ?thesis
    using destination_exists_before_any_move [of "Some ''/home/u''" scenario_world]
      destination_exists_before_any_move [of "Some ''/home/u''" blocked_world]
    by (simp add: expanduser_example scenario_run scenario_calls scenario_end_calls
        scenario_world_simps blocked_run blocked_calls blocked_makedirs)
qed


theorem configuration_is_constant_witness:
  "same_vars configured_world (final (move_matching configured_world)) \<and>
   source_dir (final (script (Some ''/home/u'') scenario_world)) = ''path/to/your/subdirectory'' \<and>
   destination_dir (final (script (Some ''/home/u'') scenario_world)) = ''/home/u/Desktop/Filtered_Files'' \<and>
   os_path_expanduser (Some ''/home/u//'') ''~/Desktop/Filtered_Files'' = ''/home/u/Desktop/Filtered_Files'' \<and>
   call_error (Makedirs ''/home/u/Desktop/Filtered_Files'', disk scenario_world) = None \<and>
   search_keyword (final (script (Some ''/home/u'') scenario_world)) = ''play'' \<and>
   file_extensions (final (script (Some ''/home/u'') scenario_world)) =
     {''.mp4'', ''.avi'', ''.mov'', ''.mkv'', ''.flv'', ''.wmv''} \<and>
   prefix ''.'' ''.mp4'' \<and> str_lower ''.mp4'' = ''.mp4''"
proof -
  have e: "os_path_expanduser (Some ''/home/u'') ''~/Desktop/Filtered_Files'' = ''/home/u/Desktop/Filtered_Files''"
    by (simp add: os_path_expanduser_def rstrip_sep_def)
  have r: "rstrip_sep ''/home/u//'' = ''/home/u''" by (simp add: rstrip_sep_def)
  have c: "call_error (Makedirs ''/home/u/Desktop/Filtered_Files'', disk scenario_world) = None"
    by (simp add: scenario_world_simps scenario_makedirs)
  show ?thesis
    using configuration_is_constant [of configured_world "Some ''/home/u''" scenario_world "''/home/u//''"]
    using c by (simp add: e r scenario_world_simps scenario_makedirs str_lower_def lower_char_def)
qed


lemma bare_world_simps:
  "calls bare_world = []" "console bare_world = []" "disk bare_world = bare_fs"
  by (simp_all add: bare_world_def scenario_world_def)

lemma bare_makedirs:
  "os_makedirs ''/home/u/Desktop/Filtered_Files'' True bare_fs = Inr bare_made"
  by (simp add: os_makedirs.simps fs_eval bare_fs_def bare_made_def)

lemma bare_scandir:
  "os_scandir ''path/to/your/subdirectory'' bare_made =
     Inl (FileNotFoundError ''path/to/your/subdirectory'')"
  by (simp add: fs_eval bare_fs_def bare_made_def)

lemma bare_run: "script (Some ''/home/u'') bare_world = Inr bare_end"
  by (simp add: run_eval fs_eval bare_world_def scenario_world_def bare_fs_def bare_made_def bare_end_def)


lemma crowded_run:
  "script (Some ''/home/u'') crowded_world =
     Inl (ShutilError ''/home/u/Desktop/Filtered_Files/clip_play.mp4/clip_play.mp4'', crowded_end)"
  by (simp add: run_eval fs_eval crowded_world_def scenario_world_def crowded_fs_def
      crowded_moved_def crowded_end_def)





theorem listing_errors_are_skipped_witness:
  "os_scandir ''path/to/your/subdirectory/a'' (disk locked_world) =
     Inl (PermissionError ''path/to/your/subdirectory/a'') \<and>
   os_walk_loop [''path/to/your/subdirectory/a'', ''path/to/your/subdirectory/b''] locked_world =
     os_walk_loop [''path/to/your/subdirectory/b'']
       (locked_world\<lparr>calls := calls locked_world @
          [(Scandir ''path/to/your/subdirectory/a'', disk locked_world)]\<rparr>) \<and>
   os_makedirs (os_path_expanduser (Some ''/home/u'') ''~/Desktop/Filtered_Files'') True (disk bare_world) =
     Inr bare_made \<and>
   os_scandir ''path/to/your/subdirectory'' bare_made =
     Inl (FileNotFoundError ''path/to/your/subdirectory'') \<and>
   script (Some ''/home/u'') bare_world = Inr bare_end \<and>
   console bare_end = console bare_world @ [''Transfer complete.''] \<and>
   isl (script (Some ''/home/u'') crowded_world) \<and>
   \<not> is_listing (last (calls (final (script (Some ''/home/u'') crowded_world))))"
proof -
  have l: "os_scandir ''path/to/your/subdirectory/a'' (disk locked_world) =
      Inl (PermissionError ''path/to/your/subdirectory/a'')"
    by (simp add: fs_eval locked_world_def configured_world_def scenario_world_def
        scenario_made_def scenario_fs_def)
  have m: "os_makedirs (os_path_expanduser (Some ''/home/u'') ''~/Desktop/Filtered_Files'') True
      (disk bare_world) = Inr bare_made"
    by (simp add: expanduser_example bare_world_simps bare_makedirs)
  have c: "console bare_end = console bare_world @ [''Transfer complete.'']"
    by (simp add: bare_end_def bare_world_simps)
  show ?thesis
    using listing_errors_are_skipped [of "''path/to/your/subdirectory/a''" locked_world
        "PermissionError ''path/to/your/subdirectory/a''" "[''path/to/your/subdirectory/b'']"
        "Some ''/home/u''" bare_world bare_made "FileNotFoundError ''path/to/your/subdirectory''"]
      listing_errors_are_skipped [of "''x''" locked_world "PermissionError ''x''" "[]"
        "Some ''/home/u''" crowded_world bare_made "FileNotFoundError ''x''"]
      l m c bare_scandir bare_run
    by (simp add: crowded_run)
qed

lemma walk_start_simps:
  "disk walk_start = scenario_made" "source_dir walk_start = ''path/to/your/subdirectory''"
  "destination_dir walk_start = ''/home/u/Desktop/Filtered_Files''"
  by (simp_all add: walk_start_def configured_world_def)



lemma walk_matches:
  "matches walk_start ''clip_play.mp4''" "\<not> matches walk_start ''notes.txt''"
  by (simp_all add: matches_def str_lower_def lower_char_def sublist_Cons_right suffix_to_prefix
      walk_start_def configured_world_def)


lemma walk_body:
  "loop_body ''path/to/your/subdirectory/a'' ''clip_play.mp4'' walk_start = Inr walk_moved"
  by (simp add: run_eval fs_eval walk_start_def walk_moved_def configured_world_def scenario_world_def
      scenario_fs_def scenario_made_def scenario_moved_def)

theorem flattening_witness:
  "matches walk_start ''clip_play.mp4'' \<and> valid_name ''clip_play.mp4'' \<and>
   resolve (disk walk_start) ''path/to/your/subdirectory/a'' =
     Some [''work'', ''path'', ''to'', ''your'', ''subdirectory'', ''a''] \<and>
   \<not> isdir [''work'', ''path'', ''to'', ''your'', ''subdirectory'', ''a'', ''clip_play.mp4''] (disk walk_start) \<and>
   resolve (disk walk_start) (destination_dir walk_start) =
     Some [''home'', ''u'', ''Desktop'', ''Filtered_Files''] \<and>
   loop_body ''path/to/your/subdirectory/a'' ''clip_play.mp4'' walk_start = Inr walk_moved \<and>
   \<not> isdir [''home'', ''u'', ''Desktop'', ''Filtered_Files'', ''clip_play.mp4''] (disk walk_start) \<and>
   isfile [''home'', ''u'', ''Desktop'', ''Filtered_Files'', ''clip_play.mp4''] (disk walk_moved) \<and>
   map_of (file_data (disk walk_moved)) [''home'', ''u'', ''Desktop'', ''Filtered_Files'', ''clip_play.mp4''] =
     map_of (file_data (disk walk_start))
       [''work'', ''path'', ''to'', ''your'', ''subdirectory'', ''a'', ''clip_play.mp4''] \<and>
   isdir [''home'', ''u'', ''Desktop'', ''Filtered_Files'', ''clip_play.mp4''] (disk nested_start) \<and>
   loop_body ''path/to/your/subdirectory/a'' ''clip_play.mp4'' nested_start = Inr nested_step \<and>
   isfile [''home'', ''u'', ''Desktop'', ''Filtered_Files'', ''clip_play.mp4'', ''clip_play.mp4'']
     (disk nested_step)"
proof -
  let ?r = "[''work'', ''path'', ''to'', ''your'', ''subdirectory'', ''a'']"
  let ?d = "[''home'', ''u'', ''Desktop'', ''Filtered_Files'']"
  have r: "resolve (disk walk_start) ''path/to/your/subdirectory/a'' = Some ?r"
    "resolve (disk walk_start) (destination_dir walk_start) = Some ?d"
    by (simp_all add: walk_start_simps resolve_def walk_comp_def scenario_made_def scenario_fs_def)
  have d: "\<not> isdir (?r @ [''clip_play.mp4'']) (disk walk_start)"
    "\<not> isdir (?d @ [''clip_play.mp4'']) (disk walk_start)"
    by (simp_all add: walk_start_simps isdir_def scenario_made_def scenario_fs_def)
  have v: "valid_name ''clip_play.mp4''" by (simp add: valid_name_def)
  have r': "resolve (disk nested_start) ''path/to/your/subdirectory/a'' = Some ?r"
    "resolve (disk nested_start) (destination_dir nested_start) = Some ?d"
    by (simp_all add: nested_start_simps resolve_def walk_comp_def nested_fs_def scenario_made_def
        scenario_fs_def)
  have d': "\<not> isdir (?r @ [''clip_play.mp4'']) (disk nested_start)"
    "isdir (?d @ [''clip_play.mp4'']) (disk nested_start)"
    by (simp_all add: nested_start_simps isdir_def nested_fs_def scenario_made_def scenario_fs_def)
  note f = flattening [OF walk_matches(1) v r(1) d(1) r(2) walk_body]
  note g = flattening [OF nested_matches v r'(1) d'(1) r'(2) nested_body]
  from f d(2) have
    "isfile (?d @ [''clip_play.mp4'']) (disk walk_moved) \<and>
     map_of (file_data (disk walk_moved)) (?d @ [''clip_play.mp4'']) =
       map_of (file_data (disk walk_start)) (?r @ [''clip_play.mp4''])"
    by blast
  moreover from g d'(2) have "isfile (?d @ [''clip_play.mp4'', ''clip_play.mp4'']) (disk nested_step)"
    by blast
  ultimately show ?thesis using r d d'(2) v walk_matches(1) walk_body nested_body by simp
qed

lemma nested_run: "script (Some ''/home/u'') nested_world = Inr nested_end"
  by (simp add: run_eval fs_eval nested_world_def scenario_world_def nested_fs_def nested_moved_def
      nested_end_def scenario_made_def scenario_fs_def)

text \<open>
  Claim C4 as it is stated does not hold. Where the destination directory holds a
  directory named \<^verbatim>\<open>clip_play.mp4\<close>, the script completes and reports the move of
  \<^verbatim>\<open>a/clip_play.mp4\<close>, and the file is not immediately inside the destination
  directory: it is inside the directory of its name.
\<close>

theorem match_moved_below_the_destination:
  "script (Some ''/home/u'') nested_world = Inr nested_end \<and>
   console nested_end =
     [''Moved: path/to/your/subdirectory/a/clip_play.mp4 -> /home/u/Desktop/Filtered_Files/clip_play.mp4'',
      ''Transfer complete.''] \<and>
   \<not> isfile [''home'', ''u'', ''Desktop'', ''Filtered_Files'', ''clip_play.mp4''] (disk nested_end) \<and>
   isfile [''home'', ''u'', ''Desktop'', ''Filtered_Files'', ''clip_play.mp4'', ''clip_play.mp4'']
     (disk nested_end) \<and>
   \<not> isfile [''work'', ''path'', ''to'', ''your'', ''subdirectory'', ''a'', ''clip_play.mp4'']
     (disk nested_end)"
  by (simp add: nested_run)
     (simp add: nested_end_def nested_moved_def nested_fs_def scenario_made_def scenario_fs_def
        isfile_def isdir_def)

end
